theory Spec2Isabelle
  imports Main "HOL-Library.Word" "HOL-Library.Char_ord" "HOL-Library.List_Lexorder"
    "HOL-Library.Sublist"
begin

section \<open>Strings\<close>

text \<open>
  Go strings are byte sequences; they are modelled as \<^typ>\<open>string\<close> (a list of 8-bit
  characters), \<open>len\<close> as \<^const>\<open>length\<close>, and the comparison of strings (Go's and the
  store's \<open>>\<close> and \<open>ORDER BY\<close>) as the byte-wise lexicographic order.

  \<open>strings.ToLower\<close> and the store's \<open>LOWER\<close> are modelled on ASCII: the letters
  \<open>A\<close> to \<open>Z\<close> get bit 5 set, every other byte is kept. On ASCII text the two agree
  and are this function. On text with other letters they need not agree (Go lowers
  every Unicode letter, the store what its collation knows); the paths of the
  examples below are ASCII.
\<close>

fun lower_char :: "char \<Rightarrow> char" where
  "lower_char (Char b0 b1 b2 b3 b4 b5 b6 b7) =
     (if CHR ''A'' \<le> Char b0 b1 b2 b3 b4 b5 b6 b7 \<and> Char b0 b1 b2 b3 b4 b5 b6 b7 \<le> CHR ''Z''
      then Char b0 b1 b2 b3 b4 True b6 b7
      else Char b0 b1 b2 b3 b4 b5 b6 b7)"

definition ToLower :: "string \<Rightarrow> string" where
  "ToLower s = map lower_char s"

text \<open>
  \<open>strings.Split(s, sep)\<close>: \<open>s\<close> cut at every occurrence of \<open>sep\<close>, found from the left
  and not overlapping; the result of a non-empty \<open>sep\<close> has one element more than there
  are occurrences. For an empty \<open>sep\<close> Go cuts after every UTF-8 sequence (here: every
  byte).
\<close>

fun splitOn :: "string \<Rightarrow> string \<Rightarrow> string \<Rightarrow> string list" where
  "splitOn sep cur [] = [cur]"
| "splitOn sep cur (c # s) =
     (if sep \<noteq> [] \<and> prefix sep (c # s)
      then cur # splitOn sep [] (drop (length sep) (c # s))
      else splitOn sep (cur @ [c]) s)"

definition Split :: "string \<Rightarrow> string \<Rightarrow> string list" where
  "Split s sep = (if sep = [] then map (\<lambda>c. [c]) s else splitOn sep [] s)"

text \<open>
  Modelled from the spec: the path delimiter is a constant declared outside the given
  sources; every path of the spec (\<open>a/b/c/file.txt\<close>, \<open>x/y/2\<close>, \<open>team1/\<close>) is cut at
  \<open>/\<close>.
\<close>

definition Delimiter :: string where
  "Delimiter = ''/''"

text \<open>
  Modelled from the spec: \<open>getName\<close> is declared outside the given sources; the spec
  gives a folder entry the name "last segment" of its full path, the leaf name of the
  path.
\<close>

definition getName :: "string \<Rightarrow> string" where
  "getName path = last (Split path Delimiter)"

text \<open>
  The store's \<open>LIKE\<close>: in the pattern \<open>%\<close> stands for any sequence of characters and
  \<open>_\<close> for any one character; every other character stands for itself. No escape
  character is given with any pattern of the sources. \<open>sql_like s p\<close> is
  \<open>s LIKE p\<close>. A character is a byte here, which is what it is on ASCII text.
\<close>

fun like_match :: "string \<Rightarrow> string \<Rightarrow> bool" where
  "like_match [] [] = True"
| "like_match [] (c # s) = False"
| "like_match (p # ps) [] = (p = CHR ''%'' \<and> like_match ps [])"
| "like_match (p # ps) (c # s) =
     (if p = CHR ''%'' then like_match ps (c # s) \<or> like_match (p # ps) s
      else (p = CHR ''_'' \<or> p = c) \<and> like_match ps s)"

definition sql_like :: "string \<Rightarrow> string \<Rightarrow> bool" where
  "sql_like s p = like_match p s"

section \<open>Data model\<close>

type_synonym time = nat
type_synonym byte = "8 word"

datatype error = StorageFailure | NilDereference | IndexOutOfRange

text \<open>The rows of table \<open>file\<close> (struct \<open>file\<close>) and of table \<open>file_meta\<close> (struct \<open>fileMeta\<close>).\<close>

record file_row =
  Path :: string
  ParentFolderPath :: string
  Contents :: "byte list"
  Updated :: time
  Created :: time
  Size :: int
  MimeType :: string

record fileMeta =
  Path :: string
  Key :: string
  Value :: string
  Updated :: time
  Created :: time

text \<open>
  The types of the storage interface, as the sources use them (their declarations are
  outside the given sources). A Go map is a partial function; the properties of an
  upsert command are listed in the order the loop visits them. The arguments
  \<open>paging\<close> and \<open>options\<close> are pointers and may be nil (\<^typ>\<open>'a option\<close>); the path
  filters of the options are taken as a value.
\<close>

record FileMetadata =
  Name :: string
  FullPath :: string
  Created :: time
  Properties :: "string \<rightharpoonup> string"
  Modified :: time
  Size :: int
  MimeType :: string

record File =
  Contents :: "byte list"
  FileMetadata :: FileMetadata

record Paging =
  After :: string
  First :: int

record PathFilters =
  allowedPrefixes :: "string list"

record ListOptions =
  Recursive :: bool
  PathFilters :: PathFilters

record ListFilesResponse =
  Files :: "FileMetadata list"
  HasMore :: bool
  LastPath :: string

record UpsertFileCommand =
  Path :: string
  MimeType :: string
  Contents :: "byte list option"
  Properties :: "(string \<times> string) list"

section \<open>The record store\<close>

text \<open>
  Modelled from the spec: the session interface of the record store
  (\<open>sqlstore.SQLStore\<close>, \<open>sqlstore.DBSession\<close>) is outside the given sources. The
  spec assumes of it atomic single statements, transactions with rollback, pattern
  matching, ordering and limit, insert, update and delete. A table is the list of its
  rows. Every statement either fails as a whole and changes nothing, or takes effect;
  which of the coming statements the store fails (connectivity, an aborted transaction)
  is the list \<open>faults\<close> of the session, one entry for each statement, none for a store
  that does not fail.
\<close>

record SQLStore =
  file_tbl :: "file_row list"
  file_meta_tbl :: "fileMeta list"

record DBSession =
  tables :: SQLStore
  begun :: "SQLStore option"
  faults :: "bool list"

definition stmt_fails :: "DBSession \<Rightarrow> bool" where
  "stmt_fails sess = (case faults sess of [] \<Rightarrow> False | b # bs \<Rightarrow> b)"

definition advance :: "DBSession \<Rightarrow> DBSession" where
  "advance sess = sess\<lparr>faults := tl (faults sess)\<rparr>"

text \<open>The conditions the sources give to \<open>Where\<close> and \<open>In\<close>, one constructor for each.\<close>

datatype file_cond =
    LowerPathEq string
  | LowerPathLike string
  | LowerPathNotLike string
  | LowerParentEq string
  | LowerParentLike string
  | LowerParentGt string
  | PathGt string

fun file_holds :: "file_cond \<Rightarrow> file_row \<Rightarrow> bool" where
  "file_holds (LowerPathEq v) r = (ToLower (file_row.Path r) = v)"
| "file_holds (LowerPathLike p) r = sql_like (ToLower (file_row.Path r)) p"
| "file_holds (LowerPathNotLike p) r = (\<not> sql_like (ToLower (file_row.Path r)) p)"
| "file_holds (LowerParentEq v) r = (ToLower (ParentFolderPath r) = v)"
| "file_holds (LowerParentLike p) r = sql_like (ToLower (ParentFolderPath r)) p"
| "file_holds (LowerParentGt v) r = (v < ToLower (ParentFolderPath r))"
| "file_holds (PathGt v) r = (v < file_row.Path r)"

definition file_matches :: "file_cond list \<Rightarrow> file_row \<Rightarrow> bool" where
  "file_matches conds r = list_all (\<lambda>c. file_holds c r) conds"

datatype meta_cond =
    MetaPathEq string
  | MetaPathKeyEq string string
  | MetaPathIn "string list"

fun meta_holds :: "meta_cond \<Rightarrow> fileMeta \<Rightarrow> bool" where
  "meta_holds (MetaPathEq v) m = (fileMeta.Path m = v)"
| "meta_holds (MetaPathKeyEq v k) m = (fileMeta.Path m = v \<and> Key m = k)"
| "meta_holds (MetaPathIn vs) m = (fileMeta.Path m \<in> set vs)"

definition meta_matches :: "meta_cond list \<Rightarrow> fileMeta \<Rightarrow> bool" where
  "meta_matches conds m = list_all (\<lambda>c. meta_holds c m) conds"

text \<open>
  A statement: \<open>stmt sess result change\<close> fails with \<open>StorageFailure\<close> and no effect when
  the store fails it, and otherwise gives \<open>result\<close> of the tables and changes them by
  \<open>change\<close>.
\<close>

definition stmt ::
  "DBSession \<Rightarrow> (SQLStore \<Rightarrow> 'a) \<Rightarrow> (SQLStore \<Rightarrow> SQLStore) \<Rightarrow> (error + 'a) \<times> DBSession" where
  "stmt sess result change =
     (if stmt_fails sess then (Inl StorageFailure, advance sess)
      else (Inr (result (tables sess)), advance (sess\<lparr>tables := change (tables sess)\<rparr>)))"

text \<open>
  \<open>Get\<close>: the first row that matches, if there is one. It answers \<open>(has, err)\<close>, and
  \<open>has\<close> is false when the statement failed.
\<close>

definition Get_file :: "file_cond list \<Rightarrow> DBSession \<Rightarrow> (error + file_row option) \<times> DBSession" where
  "Get_file conds sess = stmt sess (\<lambda>t. find (file_matches conds) (file_tbl t)) id"

definition Get_meta :: "meta_cond list \<Rightarrow> DBSession \<Rightarrow> (error + fileMeta option) \<times> DBSession" where
  "Get_meta conds sess = stmt sess (\<lambda>t. find (meta_matches conds) (file_meta_tbl t)) id"

text \<open>
  \<open>Find\<close> on table \<open>file\<close> with \<open>OrderBy("path")\<close> and \<open>Limit(n)\<close>: the matching rows in
  ascending order of \<open>path\<close>, the first \<open>n\<close> of them (none for the limit 0); a negative
  limit limits nothing.
\<close>

definition limit_rows :: "int \<Rightarrow> 'a list \<Rightarrow> 'a list" where
  "limit_rows n rows = (if 0 \<le> n then take (nat n) rows else rows)"

definition Find_files_by_path ::
  "file_cond list \<Rightarrow> int \<Rightarrow> DBSession \<Rightarrow> (error + file_row list) \<times> DBSession" where
  "Find_files_by_path conds n sess =
     stmt sess
       (\<lambda>t. limit_rows n (sort_key file_row.Path (filter (file_matches conds) (file_tbl t)))) id"

text \<open>
  \<open>Find\<close> on table \<open>file\<close> with \<open>Distinct("parent_folder_path")\<close>,
  \<open>OrderBy("parent_folder_path")\<close> and \<open>Cols("parent_folder_path")\<close>: the distinct
  parent folder paths of the matching rows, ascending.
\<close>

definition Find_parent_folder_paths ::
  "file_cond list \<Rightarrow> DBSession \<Rightarrow> (error + string list) \<times> DBSession" where
  "Find_parent_folder_paths conds sess =
     stmt sess
       (\<lambda>t. sort (remdups (map ParentFolderPath (filter (file_matches conds) (file_tbl t))))) id"

definition Find_meta :: "meta_cond list \<Rightarrow> DBSession \<Rightarrow> (error + fileMeta list) \<times> DBSession" where
  "Find_meta conds sess = stmt sess (\<lambda>t. filter (meta_matches conds) (file_meta_tbl t)) id"

text \<open>
  \<open>Delete\<close>, \<open>Update\<close> and \<open>Insert\<close> take a struct (the bean) and answer the number of
  rows they touched. The session library reads the bean by the fields that hold a
  value other than the zero value of their type (the empty string, the empty byte
  slice, 0, the zero time):

    \<^item> \<open>Update\<close>, called with no selection of columns as the sources call it, writes
      those columns to every row that matches and leaves the other columns of the row
      as they are (\<open>written_file\<close>, \<open>written_meta\<close>);

    \<^item> \<open>Delete\<close> adds to its conditions that the row equals the bean in those columns
      (\<open>agrees_file\<close>); the bean of the deletion on \<open>file_meta\<close> is empty in the sources
      and adds nothing;

    \<^item> \<open>Insert\<close> adds the bean as a row, with all its columns.

  The beans of \<open>Get\<close> are empty in the sources. Time stamps are written as the sources
  set them.
\<close>

definition written_file :: "file_row \<Rightarrow> file_row \<Rightarrow> file_row" where
  "written_file bean r =
     \<lparr>file_row.Path = (if file_row.Path bean = [] then file_row.Path r else file_row.Path bean),
      ParentFolderPath =
        (if ParentFolderPath bean = [] then ParentFolderPath r else ParentFolderPath bean),
      Contents =
        (if file_row.Contents bean = [] then file_row.Contents r else file_row.Contents bean),
      Updated = (if file_row.Updated bean = 0 then file_row.Updated r else file_row.Updated bean),
      Created = (if file_row.Created bean = 0 then file_row.Created r else file_row.Created bean),
      Size = (if file_row.Size bean = 0 then file_row.Size r else file_row.Size bean),
      MimeType =
        (if file_row.MimeType bean = [] then file_row.MimeType r else file_row.MimeType bean)\<rparr>"

definition written_meta :: "fileMeta \<Rightarrow> fileMeta \<Rightarrow> fileMeta" where
  "written_meta bean m =
     \<lparr>fileMeta.Path = (if fileMeta.Path bean = [] then fileMeta.Path m else fileMeta.Path bean),
      Key = (if Key bean = [] then Key m else Key bean),
      Value = (if Value bean = [] then Value m else Value bean),
      Updated = (if fileMeta.Updated bean = 0 then fileMeta.Updated m else fileMeta.Updated bean),
      Created = (if fileMeta.Created bean = 0 then fileMeta.Created m else fileMeta.Created bean)\<rparr>"

definition agrees_file :: "file_row \<Rightarrow> file_row \<Rightarrow> bool" where
  "agrees_file bean r =
     ((file_row.Path bean = [] \<or> file_row.Path r = file_row.Path bean) \<and>
      (ParentFolderPath bean = [] \<or> ParentFolderPath r = ParentFolderPath bean) \<and>
      (file_row.Contents bean = [] \<or> file_row.Contents r = file_row.Contents bean) \<and>
      (file_row.Updated bean = 0 \<or> file_row.Updated r = file_row.Updated bean) \<and>
      (file_row.Created bean = 0 \<or> file_row.Created r = file_row.Created bean) \<and>
      (file_row.Size bean = 0 \<or> file_row.Size r = file_row.Size bean) \<and>
      (file_row.MimeType bean = [] \<or> file_row.MimeType r = file_row.MimeType bean))"

definition Delete_file ::
  "file_cond list \<Rightarrow> file_row \<Rightarrow> DBSession \<Rightarrow> (error + int) \<times> DBSession" where
  "Delete_file conds bean sess =
     stmt sess
       (\<lambda>t. int (length (filter (\<lambda>r. file_matches conds r \<and> agrees_file bean r) (file_tbl t))))
       (\<lambda>t. t\<lparr>file_tbl :=
          filter (\<lambda>r. \<not> (file_matches conds r \<and> agrees_file bean r)) (file_tbl t)\<rparr>)"

definition Delete_meta :: "meta_cond list \<Rightarrow> DBSession \<Rightarrow> (error + int) \<times> DBSession" where
  "Delete_meta conds sess =
     stmt sess (\<lambda>t. int (length (filter (meta_matches conds) (file_meta_tbl t))))
       (\<lambda>t. t\<lparr>file_meta_tbl := filter (\<lambda>m. \<not> meta_matches conds m) (file_meta_tbl t)\<rparr>)"

definition Update_file ::
  "file_cond list \<Rightarrow> file_row \<Rightarrow> DBSession \<Rightarrow> (error + int) \<times> DBSession" where
  "Update_file conds bean sess =
     stmt sess (\<lambda>t. int (length (filter (file_matches conds) (file_tbl t))))
       (\<lambda>t. t\<lparr>file_tbl :=
          map (\<lambda>r. if file_matches conds r then written_file bean r else r) (file_tbl t)\<rparr>)"

definition Update_meta ::
  "meta_cond list \<Rightarrow> fileMeta \<Rightarrow> DBSession \<Rightarrow> (error + int) \<times> DBSession" where
  "Update_meta conds bean sess =
     stmt sess (\<lambda>t. int (length (filter (meta_matches conds) (file_meta_tbl t))))
       (\<lambda>t. t\<lparr>file_meta_tbl :=
          map (\<lambda>m. if meta_matches conds m then written_meta bean m else m) (file_meta_tbl t)\<rparr>)"

definition Insert_file :: "file_row \<Rightarrow> DBSession \<Rightarrow> (error + int) \<times> DBSession" where
  "Insert_file row sess = stmt sess (\<lambda>t. 1) (\<lambda>t. t\<lparr>file_tbl := file_tbl t @ [row]\<rparr>)"

definition Insert_meta :: "fileMeta \<Rightarrow> DBSession \<Rightarrow> (error + int) \<times> DBSession" where
  "Insert_meta row sess = stmt sess (\<lambda>t. 1) (\<lambda>t. t\<lparr>file_meta_tbl := file_meta_tbl t @ [row]\<rparr>)"

text \<open>\<open>Rollback\<close> brings back the tables the transaction began with.\<close>

definition Rollback :: "DBSession \<Rightarrow> DBSession" where
  "Rollback sess = (case begun sess of None \<Rightarrow> sess | Some t \<Rightarrow> sess\<lparr>tables := t\<rparr>)"

text \<open>
  \<open>WithDbSession\<close> runs the callback on a session with no transaction: what its
  statements changed stays, whatever the callback answers. \<open>WithTransactionalDbSession\<close>
  begins a transaction, and commits it when the callback answers no error and rolls it
  back when it answers one.
\<close>

definition WithDbSession ::
  "SQLStore \<Rightarrow> bool list \<Rightarrow> (DBSession \<Rightarrow> 'a \<times> DBSession) \<Rightarrow> 'a \<times> SQLStore" where
  "WithDbSession db fs callback =
     (let (r, sess) = callback \<lparr>tables = db, begun = None, faults = fs\<rparr> in (r, tables sess))"

definition WithTransactionalDbSession ::
  "SQLStore \<Rightarrow> bool list \<Rightarrow> (DBSession \<Rightarrow> error option \<times> DBSession) \<Rightarrow> error option \<times> SQLStore" where
  "WithTransactionalDbSession db fs callback =
     (let (r, sess) = callback \<lparr>tables = db, begun = Some db, faults = fs\<rparr>
      in case r of None \<Rightarrow> (None, tables sess) | Some e \<Rightarrow> (Some e, db))"

section \<open>The file storage\<close>

subsection \<open>Get\<close>

text \<open>
  The callback of \<open>Get\<close>. The error of the first statement is dropped when no row was
  found; \<open>result\<close> stays nil then.
\<close>

definition Get_callback :: "string \<Rightarrow> DBSession \<Rightarrow> (error + File option) \<times> DBSession" where
  "Get_callback filePath sess =
     (let (got, sess1) = Get_file [LowerPathEq (ToLower filePath)] sess in
      case got of
        Inr (Some table) \<Rightarrow>
          (let (found, sess2) = Find_meta [MetaPathEq (ToLower filePath)] sess1 in
           case found of
             Inl err \<Rightarrow> (Inl err, sess2)
           | Inr meta \<Rightarrow>
               (Inr (Some \<lparr>File.Contents = file_row.Contents table,
                   FileMetadata = \<lparr>Name = getName (file_row.Path table),
                     FullPath = file_row.Path table,
                     Created = file_row.Created table,
                     Properties = fold (\<lambda>m props. props(Key m \<mapsto> Value m)) meta Map.empty,
                     Modified = file_row.Updated table,
                     Size = file_row.Size table,
                     MimeType = file_row.MimeType table\<rparr>\<rparr>), sess2))
      | _ \<Rightarrow> (Inr None, sess1))"

definition Get :: "SQLStore \<Rightarrow> bool list \<Rightarrow> string \<Rightarrow> error + File option" where
  "Get db fs filePath = fst (WithDbSession db fs (Get_callback filePath))"

subsection \<open>Delete\<close>

text \<open>
  The callback of \<open>Delete\<close>. It returns nil when \<open>Get\<close> answered that there is no row,
  also when the statement failed. \<open>table\<close> is the struct that \<open>Get\<close> filled with the
  row it found, and it is the bean of the deletion on \<open>file\<close>.
\<close>

definition Delete_callback :: "string \<Rightarrow> DBSession \<Rightarrow> error option \<times> DBSession" where
  "Delete_callback filePath sess =
     (let (got, sess1) = Get_file [LowerPathEq (ToLower filePath)] sess in
      case got of
        Inr (Some table) \<Rightarrow>
          (let (deleted, sess2) = Delete_file [LowerPathEq (ToLower filePath)] table sess1 in
           case deleted of
             Inl err \<Rightarrow> (Some err, sess2)
           | Inr number \<Rightarrow>
               (let (deleted_meta, sess3) = Delete_meta [MetaPathEq (ToLower filePath)] sess2 in
                case deleted_meta of
                  Inl err \<Rightarrow> (Some err, sess3)
                | Inr number \<Rightarrow> (None, sess3)))
      | _ \<Rightarrow> (None, sess1))"

definition Delete :: "SQLStore \<Rightarrow> bool list \<Rightarrow> string \<Rightarrow> error option \<times> SQLStore" where
  "Delete db fs filePath = WithDbSession db fs (Delete_callback filePath)"

subsection \<open>Upsert\<close>

definition upsertProperty ::
  "DBSession \<Rightarrow> time \<Rightarrow> string \<Rightarrow> string \<Rightarrow> string \<Rightarrow> error option \<times> DBSession" where
  "upsertProperty sess now path key val =
     (let (got, sess1) = Get_meta [MetaPathKeyEq (ToLower path) key] sess in
      case got of
        Inl err \<Rightarrow> (Some err, sess1)
      | Inr (Some existing) \<Rightarrow>
          (let (written, sess2) =
             Update_meta [MetaPathKeyEq (ToLower path) key]
               (existing\<lparr>fileMeta.Updated := now, Value := val\<rparr>) sess1
           in (case written of Inl err \<Rightarrow> Some err | Inr n \<Rightarrow> None, sess2))
      | Inr None \<Rightarrow>
          (let (written, sess2) =
             Insert_meta \<lparr>fileMeta.Path = ToLower path, Key = key, Value = val,
               Updated = now, Created = now\<rparr> sess1
           in (case written of Inl err \<Rightarrow> Some err | Inr n \<Rightarrow> None, sess2)))"

fun upsertProperties_loop ::
  "DBSession \<Rightarrow> time \<Rightarrow> string \<Rightarrow> (string \<times> string) list \<Rightarrow> error option \<times> DBSession" where
  "upsertProperties_loop sess now path [] = (None, sess)"
| "upsertProperties_loop sess now path ((key, val) # rest) =
     (case upsertProperty sess now path key val of
        (Some err, sess1) \<Rightarrow> (Some err, sess1)
      | (None, sess1) \<Rightarrow> upsertProperties_loop sess1 now path rest)"

definition upsertProperties ::
  "DBSession \<Rightarrow> time \<Rightarrow> UpsertFileCommand \<Rightarrow> error option \<times> DBSession" where
  "upsertProperties sess now cmd =
     (if length (UpsertFileCommand.Properties cmd) = 0 then (None, sess)
      else upsertProperties_loop sess now (UpsertFileCommand.Path cmd)
             (UpsertFileCommand.Properties cmd))"

text \<open>
  The callback of \<open>Upsert\<close>. \<open>getParentFolderPath\<close> is declared outside the given
  sources and is a parameter; \<open>now\<close> is the value of \<open>time.Now()\<close>.
\<close>

definition Upsert_callback ::
  "(string \<Rightarrow> string) \<Rightarrow> time \<Rightarrow> UpsertFileCommand \<Rightarrow> DBSession \<Rightarrow> error option \<times> DBSession" where
  "Upsert_callback getParentFolderPath now cmd sess =
     (let (got, sess1) = Get_file [LowerPathEq (ToLower (UpsertFileCommand.Path cmd))] sess in
      case got of
        Inl err \<Rightarrow> (Some err, sess1)
      | Inr found \<Rightarrow>
          (let (written, sess2) =
             (case found of
                Some existing \<Rightarrow>
                  (let existing1 = existing\<lparr>file_row.Updated := now\<rparr>;
                       existing2 =
                         (case UpsertFileCommand.Contents cmd of
                            None \<Rightarrow> existing1
                          | Some contents \<Rightarrow>
                              existing1\<lparr>file_row.Contents := contents,
                                file_row.MimeType := UpsertFileCommand.MimeType cmd,
                                file_row.Size := int (length contents)\<rparr>)
                   in Update_file [LowerPathEq (ToLower (UpsertFileCommand.Path cmd))]
                        existing2 sess1)
              | None \<Rightarrow>
                  (let contentsToInsert =
                         (case UpsertFileCommand.Contents cmd of
                            None \<Rightarrow> []
                          | Some contents \<Rightarrow> contents)
                   in Insert_file
                        \<lparr>file_row.Path = UpsertFileCommand.Path cmd,
                          ParentFolderPath = getParentFolderPath (UpsertFileCommand.Path cmd),
                          Contents = contentsToInsert,
                          Updated = now,
                          Created = now,
                          Size = int (length contentsToInsert),
                          MimeType = UpsertFileCommand.MimeType cmd\<rparr> sess1))
           in case written of
                Inl err \<Rightarrow> (Some err, sess2)
              | Inr n \<Rightarrow>
                  (case upsertProperties sess2 now cmd of
                     (Some err, sess3) \<Rightarrow> (Some err, Rollback sess3)
                   | (None, sess3) \<Rightarrow> (None, sess3))))"

definition Upsert ::
  "(string \<Rightarrow> string) \<Rightarrow> time \<Rightarrow> SQLStore \<Rightarrow> bool list \<Rightarrow> UpsertFileCommand \<Rightarrow>
     error option \<times> SQLStore" where
  "Upsert getParentFolderPath now db fs cmd =
     WithTransactionalDbSession db fs (Upsert_callback getParentFolderPath now cmd)"

subsection \<open>ListFiles\<close>

text \<open>
  Go's \<open>int\<close> has 64 bits (on the platforms the server is built for):
  \<open>pageSize + 1\<close> wraps around.
\<close>

definition wrap_int :: "int \<Rightarrow> int" where
  "wrap_int i = sint (word_of_int i :: 64 word)"

definition getProperties ::
  "DBSession \<Rightarrow> string list \<Rightarrow> (error + (string \<rightharpoonup> (string \<rightharpoonup> string))) \<times> DBSession" where
  "getProperties sess lowerCasePaths =
     (let (found, sess1) = Find_meta [MetaPathIn lowerCasePaths] sess in
      case found of
        Inl err \<Rightarrow> (Inl err, sess1)
      | Inr entities \<Rightarrow>
          (Inr (fold (\<lambda>entity attributesByPath.
                  attributesByPath(fileMeta.Path entity \<mapsto>
                    (case attributesByPath (fileMeta.Path entity) of
                       None \<Rightarrow> Map.empty
                     | Some attrs \<Rightarrow> attrs)(Key entity \<mapsto> Value entity)))
                entities Map.empty), sess1))"

text \<open>
  The conditions of the query of \<open>ListFiles\<close>, in the order the source adds them; the
  cursor is tested after \<open>paging.First\<close> was read, so \<open>paging\<close> is not nil there.
  \<open>directoryMarker\<close>, the reserved marker segment, is a constant declared outside the
  given sources and is a parameter.
\<close>

definition ListFiles_scope :: "bool \<Rightarrow> string \<Rightarrow> file_cond" where
  "ListFiles_scope recursive folderPath =
     (if recursive then LowerParentLike (ToLower folderPath @ ''%'')
      else LowerParentEq (ToLower folderPath))"

definition ListFiles_where :: "string \<Rightarrow> string \<Rightarrow> Paging \<Rightarrow> ListOptions \<Rightarrow> file_cond list" where
  "ListFiles_where directoryMarker folderPath paging options =
     [ListFiles_scope (Recursive options) folderPath,
      LowerPathNotLike (''%'' @ Delimiter @ directoryMarker)]
     @ map (\<lambda>prefix. LowerPathLike (ToLower prefix @ ''%''))
         (allowedPrefixes (PathFilters options))
     @ (if After paging \<noteq> [] then [PathGt (After paging)] else [])"

definition toFileMetadata :: "(string \<rightharpoonup> (string \<rightharpoonup> string)) \<Rightarrow> file_row \<Rightarrow> FileMetadata" where
  "toFileMetadata propertiesByLowerPath found =
     \<lparr>Name = getName (file_row.Path found),
      FullPath = file_row.Path found,
      Created = file_row.Created found,
      Properties =
        (case propertiesByLowerPath (ToLower (file_row.Path found)) of
           Some foundProps \<Rightarrow> foundProps
         | None \<Rightarrow> Map.empty),
      Modified = file_row.Updated found,
      Size = file_row.Size found,
      MimeType = file_row.MimeType found\<rparr>"

definition ListFiles_callback ::
  "string \<Rightarrow> string \<Rightarrow> Paging option \<Rightarrow> ListOptions option \<Rightarrow> DBSession \<Rightarrow>
     (error + ListFilesResponse) \<times> DBSession" where
  "ListFiles_callback directoryMarker folderPath paging options sess =
     (case options of
        None \<Rightarrow> (Inl NilDereference, sess)
      | Some opts \<Rightarrow>
          (case paging of
             None \<Rightarrow> (Inl NilDereference, sess)
           | Some pg \<Rightarrow>
               (let pageSize = First pg;
                    (found, sess1) =
                      Find_files_by_path (ListFiles_where directoryMarker folderPath pg opts)
                        (wrap_int (pageSize + 1)) sess
                in case found of
                     Inl err \<Rightarrow> (Inl err, sess1)
                   | Inr foundFiles \<Rightarrow>
                       (let foundLength =
                              (if pageSize < int (length foundFiles) then pageSize
                               else int (length foundFiles));
                            page = take (nat foundLength) foundFiles;
                            lowerCasePaths = map (\<lambda>f. ToLower (file_row.Path f)) page;
                            (props, sess2) = getProperties sess1 lowerCasePaths
                        in case props of
                             Inl err \<Rightarrow> (Inl err, sess2)
                           | Inr propertiesByLowerPath \<Rightarrow>
                               (let files = map (toFileMetadata propertiesByLowerPath) page;
                                    lastPath =
                                      (if 0 < length files then FullPath (last files) else [])
                                in (Inr \<lparr>Files = files,
                                      HasMore =
                                        (int (length foundFiles) = wrap_int (pageSize + 1)),
                                      LastPath = lastPath\<rparr>, sess2))))))"

definition ListFiles ::
  "string \<Rightarrow> SQLStore \<Rightarrow> bool list \<Rightarrow> string \<Rightarrow> Paging option \<Rightarrow> ListOptions option \<Rightarrow>
     error + ListFilesResponse" where
  "ListFiles directoryMarker db fs folderPath paging options =
     fst (WithDbSession db fs (ListFiles_callback directoryMarker folderPath paging options))"

subsection \<open>ListFolders\<close>

definition ListFolders_scope :: "bool \<Rightarrow> string \<Rightarrow> file_cond" where
  "ListFolders_scope recursive parentFolderPath =
     (if recursive then LowerParentGt (ToLower parentFolderPath)
      else LowerParentEq (ToLower parentFolderPath))"

definition ListFolders_where :: "string \<Rightarrow> ListOptions \<Rightarrow> file_cond list" where
  "ListFolders_where parentFolderPath options =
     ListFolders_scope (Recursive options) parentFolderPath
     # map (\<lambda>prefix. LowerParentLike (ToLower prefix @ ''%''))
         (allowedPrefixes (PathFilters options))"

text \<open>
  A folder entry has a name and a full path; its other fields keep Go's zero values.
\<close>

definition folder_entry :: "string \<Rightarrow> FileMetadata" where
  "folder_entry acc =
     \<lparr>Name = getName acc, FullPath = acc, Created = 0, Properties = Map.empty,
      Modified = 0, Size = 0, MimeType = []\<rparr>"

text \<open>
  The inner loop: it reads \<open>parts[j]\<close> before it tests \<open>j\<close> against \<open>len(parts)\<close>, and
  an index out of range is a panic. \<open>mem\<close> is the Go map of the prefixes seen; a key it
  does not hold reads as false.
\<close>

function ListFolders_inner ::
  "string \<Rightarrow> string list \<Rightarrow> nat \<Rightarrow> string \<Rightarrow> (string \<Rightarrow> bool) \<Rightarrow> FileMetadata list \<Rightarrow>
     error + ((string \<Rightarrow> bool) \<times> FileMetadata list)" where
  "ListFolders_inner parentFolderPath parts j acc mem folders =
     (if length parts \<le> j then Inl IndexOutOfRange
      else
        (let acc1 = acc @ Delimiter @ parts ! j;
             folders1 =
               (if \<not> mem acc1 \<and> length parentFolderPath < length acc1
                then folders @ [folder_entry acc1] else folders);
             mem1 = mem(acc1 := True);
             j1 = j + 1
         in if length parts \<le> j1 then Inr (mem1, folders1)
            else ListFolders_inner parentFolderPath parts j1 acc1 mem1 folders1))"
  by pat_completeness auto
termination
  by (relation "measure (\<lambda>(parentFolderPath, parts, j, acc, mem, folders). length parts - j)") auto

declare ListFolders_inner.simps [simp del]

fun ListFolders_outer ::
  "string \<Rightarrow> string list \<Rightarrow> (string \<Rightarrow> bool) \<Rightarrow> FileMetadata list \<Rightarrow> error + FileMetadata list" where
  "ListFolders_outer parentFolderPath [] mem folders = Inr folders"
| "ListFolders_outer parentFolderPath (path # foundPaths) mem folders =
     (case Split path Delimiter of
        [] \<Rightarrow> Inl IndexOutOfRange
      | acc # rest \<Rightarrow>
          (case ListFolders_inner parentFolderPath (acc # rest) 1 acc mem folders of
             Inl err \<Rightarrow> Inl err
           | Inr (mem1, folders1) \<Rightarrow> ListFolders_outer parentFolderPath foundPaths mem1 folders1))"

definition ListFolders_callback ::
  "string \<Rightarrow> ListOptions option \<Rightarrow> DBSession \<Rightarrow> (error + FileMetadata list) \<times> DBSession" where
  "ListFolders_callback parentFolderPath options sess =
     (case options of
        None \<Rightarrow> (Inl NilDereference, sess)
      | Some opts \<Rightarrow>
          (let (found, sess1) =
                 Find_parent_folder_paths (ListFolders_where parentFolderPath opts) sess
           in case found of
                Inl err \<Rightarrow> (Inl err, sess1)
              | Inr foundPaths \<Rightarrow>
                  (ListFolders_outer parentFolderPath foundPaths (\<lambda>acc. False) [], sess1)))"

definition ListFolders ::
  "SQLStore \<Rightarrow> bool list \<Rightarrow> string \<Rightarrow> ListOptions option \<Rightarrow> error + FileMetadata list" where
  "ListFolders db fs parentFolderPath options =
     fst (WithDbSession db fs (ListFolders_callback parentFolderPath options))"

subsection \<open>CreateFolder and DeleteFolder\<close>

definition CreateFolder_callback ::
  "string \<Rightarrow> time \<Rightarrow> string \<Rightarrow> string \<Rightarrow> DBSession \<Rightarrow> error option \<times> DBSession" where
  "CreateFolder_callback directoryMarker now parentFolderPath folderName sess =
     (let directoryMarkerParentPath = parentFolderPath @ Delimiter @ folderName;
          directoryMarkerPath = directoryMarkerParentPath @ Delimiter @ directoryMarker;
          (got, sess1) = Get_file [LowerPathEq (ToLower directoryMarkerPath)] sess
      in case got of
           Inl err \<Rightarrow> (Some err, sess1)
         | Inr (Some existing) \<Rightarrow> (None, sess1)
         | Inr None \<Rightarrow>
             (let (written, sess2) =
                    Insert_file
                      \<lparr>file_row.Path = directoryMarkerPath,
                        ParentFolderPath = directoryMarkerParentPath,
                        Contents = [],
                        Updated = now,
                        Created = now,
                        Size = 0,
                        MimeType = []\<rparr> sess1
              in (case written of Inl err \<Rightarrow> Some err | Inr n \<Rightarrow> None, sess2)))"

definition CreateFolder ::
  "string \<Rightarrow> time \<Rightarrow> SQLStore \<Rightarrow> bool list \<Rightarrow> string \<Rightarrow> string \<Rightarrow> error option \<times> SQLStore" where
  "CreateFolder directoryMarker now db fs parentFolderPath folderName =
     WithDbSession db fs (CreateFolder_callback directoryMarker now parentFolderPath folderName)"

definition DeleteFolder_callback ::
  "string \<Rightarrow> string \<Rightarrow> DBSession \<Rightarrow> error option \<times> DBSession" where
  "DeleteFolder_callback directoryMarker folderPath sess =
     (let directoryMarkerPath = folderPath @ Delimiter @ directoryMarker;
          (got, sess1) = Get_file [LowerPathEq (ToLower directoryMarkerPath)] sess
      in case got of
           Inl err \<Rightarrow> (Some err, sess1)
         | Inr None \<Rightarrow> (None, sess1)
         | Inr (Some existing) \<Rightarrow>
             (let (deleted, sess2) =
                    Delete_file [LowerPathEq (ToLower directoryMarkerPath)] existing sess1
              in (case deleted of Inl err \<Rightarrow> Some err | Inr n \<Rightarrow> None, sess2)))"

definition DeleteFolder ::
  "string \<Rightarrow> SQLStore \<Rightarrow> bool list \<Rightarrow> string \<Rightarrow> error option \<times> SQLStore" where
  "DeleteFolder directoryMarker db fs folderPath =
     WithDbSession db fs (DeleteFolder_callback directoryMarker folderPath)"

section \<open>Specification functions and example stores\<close>

text \<open>
  The rows the query of \<open>ListFiles\<close> selects, in ascending order of \<open>path\<close>, and the
  rows the statement fetches of them under its limit.
\<close>

definition matching_rows ::
  "string \<Rightarrow> SQLStore \<Rightarrow> string \<Rightarrow> Paging \<Rightarrow> ListOptions \<Rightarrow> file_row list" where
  "matching_rows directoryMarker db folderPath paging options =
     sort_key file_row.Path
       (filter (file_matches (ListFiles_where directoryMarker folderPath paging options))
          (file_tbl db))"

definition fetched_rows ::
  "string \<Rightarrow> SQLStore \<Rightarrow> string \<Rightarrow> Paging \<Rightarrow> ListOptions \<Rightarrow> file_row list" where
  "fetched_rows directoryMarker db folderPath paging options =
     limit_rows (wrap_int (First paging + 1))
       (matching_rows directoryMarker db folderPath paging options)"

text \<open>Stores and arguments for the examples: a file row with its path and its folder.\<close>

definition stored_file :: "string \<Rightarrow> string \<Rightarrow> byte list \<Rightarrow> file_row" where
  "stored_file path parent contents =
     \<lparr>file_row.Path = path, ParentFolderPath = parent, Contents = contents, Updated = 1,
      Created = 1, Size = int (length contents), MimeType = ''text/plain''\<rparr>"

definition files_only :: "file_row list \<Rightarrow> SQLStore" where
  "files_only rows = \<lparr>file_tbl = rows, file_meta_tbl = []\<rparr>"

definition unfiltered :: "bool \<Rightarrow> ListOptions option" where
  "unfiltered recursive = Some \<lparr>Recursive = recursive, PathFilters = \<lparr>allowedPrefixes = []\<rparr>\<rparr>"

definition marker_example :: string where
  "marker_example = ''.___gf_dir_marker___''"

text \<open>
  The parent folder paths the query of \<open>ListFolders\<close> selects, and whether a path has
  more than one segment (it holds the delimiter).
\<close>

definition found_parent_paths :: "SQLStore \<Rightarrow> string \<Rightarrow> ListOptions \<Rightarrow> string list" where
  "found_parent_paths db parentFolderPath options =
     sort (remdups (map ParentFolderPath
       (filter (file_matches (ListFolders_where parentFolderPath options)) (file_tbl db))))"

definition has_delimiter :: "string \<Rightarrow> bool" where
  "has_delimiter path = (1 < length (Split path Delimiter))"

text \<open>
  The ancestor prefixes of a path in the spec's words: the path is split into
  segments on the delimiter and every prefix is rebuilt by re-joining the segments
  from the first, one more at a time.
\<close>

fun prefixes_from :: "string \<Rightarrow> string list \<Rightarrow> string list" where
  "prefixes_from acc [] = []"
| "prefixes_from acc (seg # segs) =
     (acc @ Delimiter @ seg) # prefixes_from (acc @ Delimiter @ seg) segs"

definition ancestor_prefixes :: "string \<Rightarrow> string list" where
  "ancestor_prefixes path =
     (case Split path Delimiter of [] \<Rightarrow> [] | first # rest \<Rightarrow> prefixes_from first rest)"

text \<open>
  The visited set and the entries over a list of rebuilt prefixes: a prefix is entered
  when it is new and longer than the parent folder path, and is marked as seen.
\<close>

fun emit ::
  "string \<Rightarrow> string list \<Rightarrow> (string \<Rightarrow> bool) \<Rightarrow> FileMetadata list \<Rightarrow>
     (string \<Rightarrow> bool) \<times> FileMetadata list" where
  "emit parentFolderPath [] mem folders = (mem, folders)"
| "emit parentFolderPath (acc # accs) mem folders =
     emit parentFolderPath accs (mem(acc := True))
       (if \<not> mem acc \<and> length parentFolderPath < length acc
        then folders @ [folder_entry acc] else folders)"

text \<open>
  The file table after an \<open>Upsert\<close> that answered no error: \<open>updated_row\<close> is the
  struct that the source hands to \<open>Update\<close> (the row it found, with the fields it
  set), \<open>inserted_row\<close> the row a new path is inserted with.
\<close>

definition updated_row :: "time \<Rightarrow> UpsertFileCommand \<Rightarrow> file_row \<Rightarrow> file_row" where
  "updated_row now cmd existing =
     (case UpsertFileCommand.Contents cmd of
        None \<Rightarrow> existing\<lparr>file_row.Updated := now\<rparr>
      | Some contents \<Rightarrow>
          existing\<lparr>file_row.Updated := now, file_row.Contents := contents,
            file_row.MimeType := UpsertFileCommand.MimeType cmd,
            file_row.Size := int (length contents)\<rparr>)"

definition inserted_row :: "(string \<Rightarrow> string) \<Rightarrow> time \<Rightarrow> UpsertFileCommand \<Rightarrow> file_row" where
  "inserted_row getParentFolderPath now cmd =
     \<lparr>file_row.Path = UpsertFileCommand.Path cmd,
      ParentFolderPath = getParentFolderPath (UpsertFileCommand.Path cmd),
      Contents = (case UpsertFileCommand.Contents cmd of None \<Rightarrow> [] | Some contents \<Rightarrow> contents),
      Updated = now,
      Created = now,
      Size = int (length (case UpsertFileCommand.Contents cmd of None \<Rightarrow> [] | Some contents \<Rightarrow> contents)),
      MimeType = UpsertFileCommand.MimeType cmd\<rparr>"

definition upserted_files :: "(string \<Rightarrow> string) \<Rightarrow> time \<Rightarrow> UpsertFileCommand \<Rightarrow> file_row list \<Rightarrow> file_row list" where
  "upserted_files getParentFolderPath now cmd rows =
     (case find (file_matches [LowerPathEq (ToLower (UpsertFileCommand.Path cmd))]) rows of
        Some existing \<Rightarrow>
          map (\<lambda>r. if file_matches [LowerPathEq (ToLower (UpsertFileCommand.Path cmd))] r
                   then written_file (updated_row now cmd existing) r else r) rows
      | None \<Rightarrow> rows @ [inserted_row getParentFolderPath now cmd])"


text \<open>Stores for the examples of paging.\<close>

definition abcd_store :: SQLStore where
  "abcd_store = files_only [stored_file ''c'' [] [], stored_file ''a'' [] [],
     stored_file ''d'' [] [], stored_file ''b'' [] []]"

definition ab_store :: SQLStore where
  "ab_store = files_only [stored_file ''a'' [] [], stored_file ''b'' [] []]"

section \<open>Facts about strings, patterns and statements\<close>

lemma ToLower_append: "ToLower (a @ b) = ToLower a @ ToLower b"
  by (simp add: ToLower_def)

lemma wrap_int_id: "- (2 ^ 63) \<le> i \<Longrightarrow> i < 2 ^ 63 \<Longrightarrow> wrap_int i = i"
  by (simp add: wrap_int_def signed_of_int signed_take_bit_int_eq_self)

lemma wrap_int_max: "wrap_int (2 ^ 63) = - (2 ^ 63)"
  by (simp add: wrap_int_def signed_of_int signed_take_bit_eq_take_bit_shift take_bit_eq_mod)

lemma stmt_no_fault:
  "faults sess = [] \<Longrightarrow>
     stmt sess result change = (Inr (result (tables sess)), sess\<lparr>tables := change (tables sess)\<rparr>)"
  by (simp add: stmt_def stmt_fails_def advance_def)

lemma like_match_percent: "like_match ps s \<Longrightarrow> like_match (CHR ''%'' # ps) s"
  by (cases s) simp_all

lemma like_match_self: "like_match p p"
  by (induction p) (simp_all add: like_match_percent)

lemma like_match_skip: "like_match (CHR ''%'' # ps) s \<Longrightarrow> like_match (CHR ''%'' # ps) (x @ s)"
  by (induction x) simp_all

lemma sql_like_suffix: "sql_like (x @ p) (CHR ''%'' # p)"
  by (simp add: sql_like_def like_match_skip like_match_percent like_match_self)

section \<open>Delete\<close>

text \<open>
  What \<open>Delete\<close> does where no row matches, where the store fails no statement, and
  where it fails the deletion of the property rows: without a matching row nothing
  changes and no error is answered, whatever the store does; an error of \<open>Delete\<close> is
  always a failure of the store, never a count of rows.
\<close>

lemma Delete_absent:
  "find (file_matches [LowerPathEq (ToLower filePath)]) (file_tbl db) = None \<Longrightarrow>
   Delete db fs filePath = (None, db)"
  by (simp add: Delete_def Delete_callback_def WithDbSession_def Get_file_def stmt_def advance_def
      split: prod.splits)

lemma agrees_file_self: "agrees_file r r"
  by (simp add: agrees_file_def)

lemma Delete_no_fault:
  "find (file_matches [LowerPathEq (ToLower filePath)]) (file_tbl db) = Some table \<Longrightarrow>
   Delete db [] filePath =
     (None,
      \<lparr>file_tbl =
         filter (\<lambda>r. \<not> (ToLower (file_row.Path r) = ToLower filePath \<and> agrees_file table r))
           (file_tbl db),
       file_meta_tbl = filter (\<lambda>m. fileMeta.Path m \<noteq> ToLower filePath) (file_meta_tbl db)\<rparr>)"
  by (simp add: Delete_def Delete_callback_def WithDbSession_def Get_file_def Delete_file_def
      Delete_meta_def stmt_def stmt_fails_def advance_def file_matches_def meta_matches_def)

lemma Delete_meta_failure:
  "find (file_matches [LowerPathEq (ToLower filePath)]) (file_tbl db) = Some table \<Longrightarrow>
   Delete db [False, False, True] filePath =
     (Some StorageFailure,
      \<lparr>file_tbl =
         filter (\<lambda>r. \<not> (ToLower (file_row.Path r) = ToLower filePath \<and> agrees_file table r))
           (file_tbl db),
       file_meta_tbl = file_meta_tbl db\<rparr>)"
  by (simp add: Delete_def Delete_callback_def WithDbSession_def Get_file_def Delete_file_def
      Delete_meta_def stmt_def stmt_fails_def advance_def file_matches_def meta_matches_def)

lemma Delete_row_gone:
  assumes "find (file_matches [LowerPathEq (ToLower filePath)]) (file_tbl db) = Some table"
    and "Delete db [] filePath = (r, db1)"
  shows "table \<notin> set (file_tbl db1)"
proof -
  from assms(1) have "ToLower (file_row.Path table) = ToLower filePath"
    by (auto simp add: find_Some_iff file_matches_def)
  with assms(2) show ?thesis
    unfolding Delete_no_fault [OF assms(1)] by (auto simp add: agrees_file_self)
qed

lemma Delete_error:
  "Delete db fs filePath = (Some err, db') \<Longrightarrow> err = StorageFailure \<and> True \<in> set fs"
  by (cases fs)
    (auto simp add: Delete_def Delete_callback_def WithDbSession_def Get_file_def Delete_file_def
      Delete_meta_def stmt_def stmt_fails_def advance_def Let_def
      split: prod.splits if_splits sum.splits list.splits option.splits)

text \<open>
  C1. \<open>Delete\<close> runs its two deletions in a session without a transaction
  (\<open>WithDbSession\<close>, where \<open>Upsert\<close> takes \<open>WithTransactionalDbSession\<close>). On a store
  with the file \<open>/A.txt\<close> and one property row of it, where the store fails the third
  statement (the deletion of the property rows), \<open>Delete\<close> answers the error, the file
  row is gone and the property row is still there: the two deletions are not one
  atomic unit.
\<close>

theorem Delete_file_row_gone_property_rows_kept:
  "Delete
     \<lparr>file_tbl = [\<lparr>file_row.Path = ''/A.txt'', ParentFolderPath = ''/'', Contents = [1, 2],
          Updated = 1, Created = 1, Size = 2, MimeType = ''text/plain''\<rparr>],
      file_meta_tbl = [\<lparr>fileMeta.Path = ''/a.txt'', Key = ''k'', Value = ''v'',
          Updated = 1, Created = 1\<rparr>]\<rparr>
     [False, False, True] ''/a.txt''
   = (Some StorageFailure,
      \<lparr>file_tbl = [],
       file_meta_tbl = [\<lparr>fileMeta.Path = ''/a.txt'', Key = ''k'', Value = ''v'',
          Updated = 1, Created = 1\<rparr>]\<rparr>)"
  by (simp add: Delete_def Delete_callback_def WithDbSession_def Get_file_def Delete_file_def
      Delete_meta_def stmt_def stmt_fails_def advance_def file_matches_def meta_matches_def
      agrees_file_def ToLower_def)

section \<open>ListFiles\<close>

lemma like_match_any: "like_match ''%'' s"
  by (induction s) simp_all

lemma like_match_literal_prefix:
  "CHR ''%'' \<notin> set p \<Longrightarrow> CHR ''_'' \<notin> set p \<Longrightarrow> like_match (p @ ''%'') s = prefix p s"
proof (induction p arbitrary: s)
  case Nil
  then show ?case by (simp add: like_match_any)
next
  case (Cons c ps)
  then show ?case by (cases s) auto
qed

lemma FullPath_toFileMetadata: "FullPath (toFileMetadata P r) = file_row.Path r"
  by (simp add: toFileMetadata_def)

text \<open>What an answer of \<open>ListFiles\<close> holds, whatever the store failed.\<close>

lemma ListFiles_Inr:
  assumes "ListFiles directoryMarker db fs folderPath paging options = Inr resp"
  shows "\<exists>pg opts P. paging = Some pg \<and> options = Some opts \<and>
     Files resp = map (toFileMetadata P)
       (take (nat (First pg)) (fetched_rows directoryMarker db folderPath pg opts)) \<and>
     HasMore resp =
       (int (length (fetched_rows directoryMarker db folderPath pg opts)) = wrap_int (First pg + 1)) \<and>
     LastPath resp = (if Files resp = [] then [] else FullPath (last (Files resp)))"
proof -
  obtain pg opts where p: "paging = Some pg" "options = Some opts"
    using assms by (cases paging; cases options)
      (auto simp add: ListFiles_def ListFiles_callback_def WithDbSession_def)
  show ?thesis
    using assms unfolding p
    by (auto simp add: ListFiles_def ListFiles_callback_def WithDbSession_def
        Find_files_by_path_def getProperties_def Find_meta_def stmt_def Let_def fetched_rows_def
        matching_rows_def split: prod.splits if_splits sum.splits)
qed

text \<open>With both arguments given and a store that fails nothing, \<open>ListFiles\<close> answers.\<close>

lemma ListFiles_no_fault:
  "\<exists>resp. ListFiles directoryMarker db [] folderPath (Some pg) (Some opts) = Inr resp"
  by (simp add: ListFiles_def ListFiles_callback_def WithDbSession_def Find_files_by_path_def
      getProperties_def Find_meta_def stmt_def stmt_fails_def advance_def Let_def split: prod.splits)

lemma ListFiles_no_fault_result:
  "\<exists>resp P. ListFiles directoryMarker db [] folderPath (Some pg) (Some opts) = Inr resp \<and>
     Files resp = map (toFileMetadata P)
       (take (nat (First pg)) (fetched_rows directoryMarker db folderPath pg opts)) \<and>
     HasMore resp =
       (int (length (fetched_rows directoryMarker db folderPath pg opts)) = wrap_int (First pg + 1)) \<and>
     LastPath resp = (if Files resp = [] then [] else FullPath (last (Files resp)))"
proof -
  obtain resp where
    run: "ListFiles directoryMarker db [] folderPath (Some pg) (Some opts) = Inr resp"
    using ListFiles_no_fault by blast
  from ListFiles_Inr [OF run] run show ?thesis
    by auto
qed

lemma fetched_rows_subset:
  "set (fetched_rows directoryMarker db folderPath pg opts)
     \<subseteq> {r \<in> set (file_tbl db). file_matches (ListFiles_where directoryMarker folderPath pg opts) r}"
  by (auto simp add: fetched_rows_def matching_rows_def limit_rows_def dest: in_set_takeD)

lemma ListFiles_listed_row:
  assumes "ListFiles directoryMarker db fs folderPath paging options = Inr resp"
    and "f \<in> set (Files resp)"
  shows "\<exists>pg opts r. paging = Some pg \<and> options = Some opts \<and> r \<in> set (file_tbl db) \<and>
     file_matches (ListFiles_where directoryMarker folderPath pg opts) r \<and>
     FullPath f = file_row.Path r"
proof -
  from ListFiles_Inr [OF assms(1)] obtain pg opts P where
    p: "paging = Some pg" "options = Some opts" and
    fs: "Files resp = map (toFileMetadata P)
      (take (nat (First pg)) (fetched_rows directoryMarker db folderPath pg opts))"
    by blast
  from assms(2) fs obtain r where
    r: "r \<in> set (take (nat (First pg)) (fetched_rows directoryMarker db folderPath pg opts))"
    and f: "f = toFileMetadata P r"
    by auto
  from r have "r \<in> set (fetched_rows directoryMarker db folderPath pg opts)"
    by (rule in_set_takeD)
  with fetched_rows_subset have "r \<in> set (file_tbl db)"
    and "file_matches (ListFiles_where directoryMarker folderPath pg opts) r"
    by blast+
  with p f show ?thesis
    by (auto simp add: FullPath_toFileMetadata)
qed

lemmas fetched_rows_eval = fetched_rows_def matching_rows_def limit_rows_def wrap_int_id
  ListFiles_where_def ListFiles_scope_def file_matches_def sql_like_def ToLower_def Delimiter_def
  stored_file_def files_only_def unfiltered_def marker_example_def

subsection \<open>Directory markers are not listed\<close>

text \<open>
  C8. For every store, also one that holds directory markers (rows whose path ends
  with the delimiter and the marker segment), no file that \<open>ListFiles\<close> answers has such
  a path, in the casing it is stored in or in lower case. The marker segment is a
  parameter; the pattern of the query is not lower-cased by the source, so the marker
  constant is taken to be in lower case.
\<close>

theorem ListFiles_excludes_directory_markers:
  assumes "ToLower directoryMarker = directoryMarker"
    and "ListFiles directoryMarker db fs folderPath paging options = Inr resp"
  shows "\<forall>f \<in> set (Files resp).
           \<not> suffix (Delimiter @ directoryMarker) (FullPath f) \<and>
           \<not> suffix (Delimiter @ directoryMarker) (ToLower (FullPath f))"
proof
  fix f assume "f \<in> set (Files resp)"
  from ListFiles_listed_row [OF assms(2) this] obtain pg opts r where
    m: "file_matches (ListFiles_where directoryMarker folderPath pg opts) r"
    and f: "FullPath f = file_row.Path r"
    by blast
  from m have n: "\<not> sql_like (ToLower (file_row.Path r)) (CHR ''%'' # Delimiter @ directoryMarker)"
    by (simp add: file_matches_def ListFiles_where_def)
  have low: "ToLower (Delimiter @ directoryMarker) = Delimiter @ directoryMarker"
    using assms(1) by (simp add: ToLower_append) (simp add: ToLower_def Delimiter_def)
  have a: "\<not> suffix (Delimiter @ directoryMarker) (ToLower (file_row.Path r))"
  proof
    assume "suffix (Delimiter @ directoryMarker) (ToLower (file_row.Path r))"
    then obtain x where "ToLower (file_row.Path r) = x @ Delimiter @ directoryMarker"
      by (auto simp add: suffix_def)
    with n sql_like_suffix [of x "Delimiter @ directoryMarker"] show False by simp
  qed
  have b: "\<not> suffix (Delimiter @ directoryMarker) (file_row.Path r)"
  proof
    assume "suffix (Delimiter @ directoryMarker) (file_row.Path r)"
    then obtain x where "file_row.Path r = x @ Delimiter @ directoryMarker"
      by (auto simp add: suffix_def)
    then have "ToLower (file_row.Path r) = ToLower x @ Delimiter @ directoryMarker"
      using low by (simp add: ToLower_append)
    with a show False by (simp add: suffix_def)
  qed
  from a b f show "\<not> suffix (Delimiter @ directoryMarker) (FullPath f) \<and>
           \<not> suffix (Delimiter @ directoryMarker) (ToLower (FullPath f))"
    by simp
qed

text \<open>
  The theorem at a store that holds the marker of folder \<open>/x\<close> and one file of that
  folder: the listing of \<open>/x\<close> is the file.
\<close>

theorem ListFiles_excludes_directory_markers_witness:
  "\<exists>resp. ToLower marker_example = marker_example \<and>
     ListFiles marker_example
       (files_only [stored_file (''/x/'' @ marker_example) ''/x'' [],
          stored_file ''/x/f.txt'' ''/x'' [7]])
       [] ''/x'' (Some \<lparr>After = [], First = 10\<rparr>) (unfiltered False) = Inr resp \<and>
     map FullPath (Files resp) = [''/x/f.txt''] \<and>
     list_all (\<lambda>f. \<not> suffix (Delimiter @ marker_example) (FullPath f) \<and>
           \<not> suffix (Delimiter @ marker_example) (ToLower (FullPath f))) (Files resp)"
proof -
  have low: "ToLower marker_example = marker_example"
    by (simp add: ToLower_def marker_example_def)
  have rows: "fetched_rows marker_example
       (files_only [stored_file (''/x/'' @ marker_example) ''/x'' [],
          stored_file ''/x/f.txt'' ''/x'' [7]])
       ''/x'' \<lparr>After = [], First = 10\<rparr>
       \<lparr>Recursive = False, PathFilters = \<lparr>allowedPrefixes = []\<rparr>\<rparr>
     = [stored_file ''/x/f.txt'' ''/x'' [7]]"
    by (simp add: fetched_rows_eval)
  from ListFiles_no_fault_result obtain resp P where
    run: "ListFiles marker_example
       (files_only [stored_file (''/x/'' @ marker_example) ''/x'' [],
          stored_file ''/x/f.txt'' ''/x'' [7]])
       [] ''/x'' (Some \<lparr>After = [], First = 10\<rparr>)
       (Some \<lparr>Recursive = False, PathFilters = \<lparr>allowedPrefixes = []\<rparr>\<rparr>) = Inr resp"
    and files: "Files resp = map (toFileMetadata P)
       (take (nat (First \<lparr>After = [], First = 10\<rparr>)) (fetched_rows marker_example
       (files_only [stored_file (''/x/'' @ marker_example) ''/x'' [],
          stored_file ''/x/f.txt'' ''/x'' [7]])
       ''/x'' \<lparr>After = [], First = 10\<rparr>
       \<lparr>Recursive = False, PathFilters = \<lparr>allowedPrefixes = []\<rparr>\<rparr>))"
    by blast
  have paths: "map FullPath (Files resp) = [''/x/f.txt'']"
    unfolding files rows by (simp add: FullPath_toFileMetadata stored_file_def)
  from ListFiles_excludes_directory_markers [OF low run] low run paths
  show ?thesis
    by (auto simp add: list_all_iff unfiltered_def)
qed

subsection \<open>The paging argument\<close>

text \<open>
  C10. \<open>ListFiles\<close> reads \<open>paging.First\<close> before it tests \<open>paging\<close> against nil: with
  no paging argument the callback panics and has run no statement (the session is as
  it was), whatever the store and the options are. With a paging argument, the
  conditions of the query are those of the query without a cursor, followed by
  \<open>path > after\<close> exactly when \<open>After\<close> is not empty; no other condition compares the
  path with a cursor, and every file answered under a cursor has a path above it.
\<close>

theorem ListFiles_requires_paging:
  "ListFiles_callback directoryMarker folderPath None options sess = (Inl NilDereference, sess) \<and>
   ListFiles directoryMarker db fs folderPath None options = Inl NilDereference \<and>
   ListFiles_where directoryMarker folderPath pg opts =
     ListFiles_where directoryMarker folderPath (pg\<lparr>After := []\<rparr>) opts
     @ (if After pg = [] then [] else [PathGt (After pg)]) \<and>
   (\<forall>v. PathGt v \<notin> set (ListFiles_where directoryMarker folderPath (pg\<lparr>After := []\<rparr>) opts)) \<and>
   (\<forall>resp. ListFiles directoryMarker db fs folderPath (Some pg) options = Inr resp \<longrightarrow>
      After pg \<noteq> [] \<longrightarrow> (\<forall>f \<in> set (Files resp). After pg < FullPath f))"
proof -
  have a: "ListFiles_callback directoryMarker folderPath None options sess = (Inl NilDereference, sess)"
    by (simp add: ListFiles_callback_def split: option.splits)
  have b: "ListFiles directoryMarker db fs folderPath None options = Inl NilDereference"
    by (simp add: ListFiles_def WithDbSession_def ListFiles_callback_def split: option.splits)
  have c: "ListFiles_where directoryMarker folderPath pg opts =
     ListFiles_where directoryMarker folderPath (pg\<lparr>After := []\<rparr>) opts
     @ (if After pg = [] then [] else [PathGt (After pg)])"
    by (simp add: ListFiles_where_def)
  have d: "\<forall>v. PathGt v \<notin> set (ListFiles_where directoryMarker folderPath (pg\<lparr>After := []\<rparr>) opts)"
    by (auto simp add: ListFiles_where_def ListFiles_scope_def)
  have e: "\<forall>resp. ListFiles directoryMarker db fs folderPath (Some pg) options = Inr resp \<longrightarrow>
      After pg \<noteq> [] \<longrightarrow> (\<forall>f \<in> set (Files resp). After pg < FullPath f)"
  proof (intro allI impI ballI)
    fix resp f
    assume run: "ListFiles directoryMarker db fs folderPath (Some pg) options = Inr resp"
      and cur: "After pg \<noteq> []" and f: "f \<in> set (Files resp)"
    from ListFiles_listed_row [OF run f] obtain opts' r where
      m: "file_matches (ListFiles_where directoryMarker folderPath pg opts') r"
      and p: "FullPath f = file_row.Path r"
      by auto
    from m cur have "file_holds (PathGt (After pg)) r"
      by (simp add: file_matches_def ListFiles_where_def)
    with p show "After pg < FullPath f" by simp
  qed
  from a b c d e show ?thesis by blast
qed

theorem ListFiles_requires_paging_witness:
  "ListFiles marker_example (files_only [stored_file ''/a'' ''/'' [], stored_file ''/b'' ''/'' []]) []
     ''/'' None (unfiltered False) = Inl NilDereference \<and>
   ListFiles_where marker_example ''/'' \<lparr>After = ''/a'', First = 2\<rparr>
       \<lparr>Recursive = False, PathFilters = \<lparr>allowedPrefixes = []\<rparr>\<rparr> =
     [LowerParentEq ''/'', LowerPathNotLike (''%/'' @ marker_example), PathGt ''/a''] \<and>
   ListFiles_where marker_example ''/'' \<lparr>After = [], First = 2\<rparr>
       \<lparr>Recursive = False, PathFilters = \<lparr>allowedPrefixes = []\<rparr>\<rparr> =
     [LowerParentEq ''/'', LowerPathNotLike (''%/'' @ marker_example)] \<and>
   (\<exists>resp. ListFiles marker_example
       (files_only [stored_file ''/a'' ''/'' [], stored_file ''/b'' ''/'' []]) []
       ''/'' (Some \<lparr>After = ''/a'', First = 2\<rparr>) (unfiltered False) = Inr resp \<and>
     map FullPath (Files resp) = [''/b''] \<and>
     list_all (\<lambda>f. ''/a'' < FullPath f) (Files resp))"
proof -
  have base: "ListFiles_where marker_example ''/'' \<lparr>After = [], First = 2\<rparr>
       \<lparr>Recursive = False, PathFilters = \<lparr>allowedPrefixes = []\<rparr>\<rparr> =
     [LowerParentEq ''/'', LowerPathNotLike (''%/'' @ marker_example)]"
    by (simp add: ListFiles_where_def ListFiles_scope_def ToLower_def Delimiter_def)
  have rows: "fetched_rows marker_example
       (files_only [stored_file ''/a'' ''/'' [], stored_file ''/b'' ''/'' []])
       ''/'' \<lparr>After = ''/a'', First = 2\<rparr>
       \<lparr>Recursive = False, PathFilters = \<lparr>allowedPrefixes = []\<rparr>\<rparr>
     = [stored_file ''/b'' ''/'' []]"
    by (simp add: fetched_rows_eval)
  from ListFiles_no_fault_result obtain resp P where
    run: "ListFiles marker_example
       (files_only [stored_file ''/a'' ''/'' [], stored_file ''/b'' ''/'' []]) []
       ''/'' (Some \<lparr>After = ''/a'', First = 2\<rparr>)
       (Some \<lparr>Recursive = False, PathFilters = \<lparr>allowedPrefixes = []\<rparr>\<rparr>) = Inr resp"
    and files: "Files resp = map (toFileMetadata P)
       (take (nat (First \<lparr>After = ''/a'', First = 2\<rparr>)) (fetched_rows marker_example
       (files_only [stored_file ''/a'' ''/'' [], stored_file ''/b'' ''/'' []])
       ''/'' \<lparr>After = ''/a'', First = 2\<rparr>
       \<lparr>Recursive = False, PathFilters = \<lparr>allowedPrefixes = []\<rparr>\<rparr>))"
    by blast
  have paths: "map FullPath (Files resp) = [''/b'']"
    unfolding files rows by (simp add: FullPath_toFileMetadata stored_file_def)
  from ListFiles_requires_paging
    [of marker_example "''/''" "unfiltered False" _
      "files_only [stored_file ''/a'' ''/'' [], stored_file ''/b'' ''/'' []]" "[]"
      "\<lparr>After = ''/a'', First = 2\<rparr>"
      "\<lparr>Recursive = False, PathFilters = \<lparr>allowedPrefixes = []\<rparr>\<rparr>"]
    base run paths
  show ?thesis
    by (auto simp add: list_all_iff unfiltered_def)
qed

section \<open>ListFolders\<close>

subsection \<open>Split at the delimiter\<close>

lemma splitOn_free: "d \<notin> set s \<Longrightarrow> splitOn [d] cur s = [cur @ s]"
  by (induction s arbitrary: cur) auto

lemma splitOn_at: "d \<notin> set xs \<Longrightarrow> splitOn [d] cur (xs @ d # rest) = (cur @ xs) # splitOn [d] [] rest"
  by (induction xs arbitrary: cur) auto

lemma length_splitOn: "length (splitOn [d] cur s) = Suc (length (filter (\<lambda>c. c = d) s))"
  by (induction s arbitrary: cur) auto

lemma splitOn_not_Nil: "splitOn sep cur s \<noteq> []"
  by (induction s arbitrary: cur) auto

lemma splitOn_segments: "d \<notin> set cur \<Longrightarrow> \<forall>seg \<in> set (splitOn [d] cur s). d \<notin> set seg"
proof (induction s arbitrary: cur)
  case Nil
  then show ?case by simp
next
  case (Cons c s)
  show ?case
  proof (cases "c = d")
    case True
    with Cons.prems Cons.IH [of "[]"] show ?thesis by simp
  next
    case False
    with Cons.prems Cons.IH [of "cur @ [c]"] show ?thesis by simp
  qed
qed

lemma Split_Delimiter: "Split path Delimiter = splitOn ''/'' [] path"
  by (simp add: Split_def Delimiter_def)

lemma Split_not_Nil: "Split path Delimiter \<noteq> []"
  by (simp add: Split_Delimiter splitOn_not_Nil)

lemma has_delimiter_iff: "has_delimiter path = (CHR ''/'' \<in> set path)"
  by (auto simp add: has_delimiter_def Split_Delimiter length_splitOn filter_empty_conv
      simp flip: length_greater_0_conv)

lemma has_delimiter_contains: "has_delimiter path = (\<exists>u v. path = u @ Delimiter @ v)"
  by (auto simp add: has_delimiter_iff Delimiter_def in_set_conv_decomp)

lemma Split_segment_free: "seg \<in> set (Split path Delimiter) \<Longrightarrow> \<not> has_delimiter seg"
  using splitOn_segments [of "CHR ''/''" "[]" path]
  by (simp add: Split_Delimiter has_delimiter_iff)

lemma getName_joined: "\<not> has_delimiter seg \<Longrightarrow> getName (acc @ Delimiter @ seg) = seg"
proof -
  assume "\<not> has_delimiter seg"
  then have free: "CHR ''/'' \<notin> set seg" by (simp add: has_delimiter_iff)
  have "last (splitOn ''/'' cur (xs @ CHR ''/'' # seg)) = seg" for cur xs
    by (induction xs arbitrary: cur) (auto simp add: splitOn_free splitOn_not_Nil free)
  from this [of "[]" acc] show ?thesis
    unfolding getName_def Split_Delimiter by (simp add: Delimiter_def)
qed

subsection \<open>The loops\<close>

lemma ListFolders_inner_fault:
  "length parts \<le> j \<Longrightarrow>
   ListFolders_inner parentFolderPath parts j acc mem folders = Inl IndexOutOfRange"
  by (subst ListFolders_inner.simps) simp

lemma ListFolders_inner_emit:
  "j < length parts \<Longrightarrow>
   ListFolders_inner parentFolderPath parts j acc mem folders =
     Inr (emit parentFolderPath (prefixes_from acc (drop j parts)) mem folders)"
proof (induction parentFolderPath parts j acc mem folders rule: ListFolders_inner.induct)
  case (1 parentFolderPath parts j acc mem folders)
  let ?acc1 = "acc @ Delimiter @ parts ! j"
  let ?folders1 = "if \<not> mem ?acc1 \<and> length parentFolderPath < length ?acc1
    then folders @ [folder_entry ?acc1] else folders"
  let ?mem1 = "mem(?acc1 := True)"
  from "1.prems" have d: "drop j parts = parts ! j # drop (Suc j) parts"
    by (simp add: Cons_nth_drop_Suc)
  have e: "emit parentFolderPath (prefixes_from acc (drop j parts)) mem folders =
      emit parentFolderPath (prefixes_from ?acc1 (drop (Suc j) parts)) ?mem1 ?folders1"
    unfolding d by simp
  show ?case
  proof (cases "length parts \<le> j + 1")
    case True
    then have "ListFolders_inner parentFolderPath parts j acc mem folders = Inr (?mem1, ?folders1)"
      using "1.prems" by (subst ListFolders_inner.simps) (simp add: Let_def)
    moreover from True have "drop (Suc j) parts = []" by simp
    ultimately show ?thesis unfolding e by simp
  next
    case False
    then have step: "ListFolders_inner parentFolderPath parts j acc mem folders =
        ListFolders_inner parentFolderPath parts (j + 1) ?acc1 ?mem1 ?folders1"
      using "1.prems" by (subst ListFolders_inner.simps) (simp add: Let_def)
    have ih: "ListFolders_inner parentFolderPath parts (j + 1) ?acc1 ?mem1 ?folders1 =
        Inr (emit parentFolderPath (prefixes_from ?acc1 (drop (j + 1) parts)) ?mem1 ?folders1)"
      using "1.prems" False by (intro "1.IH" [OF _ refl refl refl refl]) simp_all
    show ?thesis unfolding step ih e by simp
  qed
qed

lemma emit_append:
  "emit parentFolderPath (xs @ ys) mem folders =
     (case emit parentFolderPath xs mem folders of
        (mem1, folders1) \<Rightarrow> emit parentFolderPath ys mem1 folders1)"
  by (induction xs arbitrary: mem folders) simp_all

lemma ListFolders_outer_emit:
  "\<forall>path \<in> set foundPaths. has_delimiter path \<Longrightarrow>
   ListFolders_outer parentFolderPath foundPaths mem folders =
     Inr (snd (emit parentFolderPath (concat (map ancestor_prefixes foundPaths)) mem folders))"
proof (induction foundPaths arbitrary: mem folders)
  case Nil
  then show ?case by simp
next
  case (Cons path foundPaths)
  from Cons.prems have "has_delimiter path" by simp
  then obtain first rest where s: "Split path Delimiter = first # rest" and r: "rest \<noteq> []"
    by (cases "Split path Delimiter"; cases "tl (Split path Delimiter)")
      (auto simp add: has_delimiter_def)
  have inner: "ListFolders_inner parentFolderPath (first # rest) (Suc 0) first mem folders =
      Inr (emit parentFolderPath (prefixes_from first rest) mem folders)"
    using r ListFolders_inner_emit [of "Suc 0" "first # rest" parentFolderPath first mem folders]
    by simp
  from Cons.prems Cons.IH show ?case
    by (simp add: s inner ancestor_prefixes_def emit_append split: prod.splits)
qed

lemma ListFolders_outer_fault:
  "\<exists>path \<in> set foundPaths. \<not> has_delimiter path \<Longrightarrow>
   ListFolders_outer parentFolderPath foundPaths mem folders = Inl IndexOutOfRange"
proof (induction foundPaths arbitrary: mem folders)
  case Nil
  then show ?case by simp
next
  case (Cons path foundPaths)
  obtain first rest where s: "Split path Delimiter = first # rest"
    using Split_not_Nil [of path] by (cases "Split path Delimiter") auto
  show ?case
  proof (cases "has_delimiter path")
    case True
    with s have "rest \<noteq> []" by (auto simp add: has_delimiter_def)
    then have inner: "ListFolders_inner parentFolderPath (first # rest) (Suc 0) first mem folders =
        Inr (emit parentFolderPath (prefixes_from first rest) mem folders)"
      using ListFolders_inner_emit [of "Suc 0" "first # rest" parentFolderPath first mem folders]
      by simp
    from True Cons.prems have "\<exists>path \<in> set foundPaths. \<not> has_delimiter path" by auto
    from Cons.IH [OF this] show ?thesis
      by (simp add: s inner split: prod.splits)
  next
    case False
    with s have "rest = []" by (simp add: has_delimiter_def)
    with s show ?thesis by (simp add: ListFolders_inner_fault)
  qed
qed

lemma ListFolders_no_fault:
  "ListFolders db [] parentFolderPath (Some opts) =
     ListFolders_outer parentFolderPath (found_parent_paths db parentFolderPath opts)
       (\<lambda>acc. False) []"
  by (simp add: ListFolders_def ListFolders_callback_def WithDbSession_def
      Find_parent_folder_paths_def stmt_def stmt_fails_def advance_def found_parent_paths_def)

lemma FullPath_folder_entry: "FullPath (folder_entry acc) = acc"
  by (simp add: folder_entry_def)

lemma Name_folder_entry: "Name (folder_entry acc) = getName acc"
  by (simp add: folder_entry_def)

lemma emit_set:
  "set (map FullPath (snd (emit parentFolderPath accs mem folders))) =
     set (map FullPath folders) \<union>
     {acc \<in> set accs. \<not> mem acc \<and> length parentFolderPath < length acc}"
  by (induction accs arbitrary: mem folders) (auto simp add: FullPath_folder_entry)

lemma emit_distinct:
  "distinct (map FullPath folders) \<Longrightarrow> \<forall>f \<in> set folders. mem (FullPath f) \<Longrightarrow>
   distinct (map FullPath (snd (emit parentFolderPath accs mem folders)))"
proof (induction accs arbitrary: mem folders)
  case Nil
  then show ?case by simp
next
  case (Cons acc accs)
  let ?folders1 = "if \<not> mem acc \<and> length parentFolderPath < length acc
    then folders @ [folder_entry acc] else folders"
  have "distinct (map FullPath ?folders1)"
    using Cons.prems by (auto simp add: FullPath_folder_entry)
  moreover have "\<forall>f \<in> set ?folders1. (mem(acc := True)) (FullPath f)"
    using Cons.prems by (auto simp add: FullPath_folder_entry)
  ultimately have "distinct (map FullPath (snd (emit parentFolderPath accs (mem(acc := True)) ?folders1)))"
    by (rule Cons.IH)
  then show ?case by simp
qed

lemma emit_entries:
  "f \<in> set (snd (emit parentFolderPath accs mem folders)) \<Longrightarrow>
   f \<in> set folders \<or> (\<exists>acc \<in> set accs. f = folder_entry acc)"
proof (induction accs arbitrary: mem folders)
  case Nil
  then show ?case by simp
next
  case (Cons acc accs)
  from Cons.prems Cons.IH [of "mem(acc := True)"] show ?case
    by (fastforce split: if_splits)
qed

lemma emit_subseq:
  "\<exists>ys. map FullPath (snd (emit parentFolderPath accs mem folders)) = map FullPath folders @ ys \<and>
     subseq ys accs"
proof (induction accs arbitrary: mem folders)
  case Nil
  then show ?case by simp
next
  case (Cons acc accs)
  let ?folders1 = "if \<not> mem acc \<and> length parentFolderPath < length acc
    then folders @ [folder_entry acc] else folders"
  from Cons.IH [of "mem(acc := True)" ?folders1] obtain ys where
    ys: "map FullPath (snd (emit parentFolderPath accs (mem(acc := True)) ?folders1)) =
      map FullPath ?folders1 @ ys" and sub: "subseq ys accs"
    by blast
  show ?case
  proof (cases "\<not> mem acc \<and> length parentFolderPath < length acc")
    case True
    with ys sub show ?thesis
      by (intro exI [of _ "acc # ys"]) (simp add: FullPath_folder_entry)
  next
    case False
    with ys sub show ?thesis
      by (intro exI [of _ ys]) (auto simp add: subseq_Cons')
  qed
qed

lemma prefixes_from_form:
  "a \<in> set (prefixes_from acc segs) \<Longrightarrow>
   \<exists>acc1 seg. a = acc1 @ Delimiter @ seg \<and> seg \<in> set segs"
proof (induction segs arbitrary: acc)
  case Nil
  then show ?case by simp
next
  case (Cons seg segs)
  from Cons.prems consider "a = acc @ Delimiter @ seg"
    | "a \<in> set (prefixes_from (acc @ Delimiter @ seg) segs)"
    by auto
  then show ?case
  proof cases
    case 1
    then show ?thesis by auto
  next
    case 2
    from Cons.IH [OF this] show ?thesis by auto
  qed
qed

lemma ancestor_prefixes_form:
  assumes "a \<in> set (ancestor_prefixes path)"
  shows "\<exists>acc seg. a = acc @ Delimiter @ seg \<and> \<not> has_delimiter seg"
proof -
  from assms obtain first rest where s: "Split path Delimiter = first # rest"
    and a: "a \<in> set (prefixes_from first rest)"
    by (cases "Split path Delimiter") (auto simp add: ancestor_prefixes_def)
  from prefixes_from_form [OF a] obtain acc seg where
    f: "a = acc @ Delimiter @ seg" and "seg \<in> set rest"
    by blast
  then have "seg \<in> set (Split path Delimiter)" by (simp add: s)
  from Split_segment_free [OF this] f show ?thesis by blast
qed

text \<open>
  The rebuilt prefixes of a path are prefixes of it that end where a segment ends, and
  the last of them is the path.
\<close>

lemma splitOn_single: "splitOn [d] c r = [h] \<Longrightarrow> h = c @ r"
proof -
  assume s: "splitOn [d] c r = [h]"
  then have "length (splitOn [d] c r) = 1" by simp
  then have "d \<notin> set r"
    by (auto simp add: length_splitOn filter_empty_conv)
  with s show ?thesis by (simp add: splitOn_free)
qed

lemma splitOn_head:
  "splitOn [d] c r = h # t \<Longrightarrow> t \<noteq> [] \<Longrightarrow> prefix (h @ [d]) (c @ r)"
proof (induction r arbitrary: c)
  case Nil
  then show ?case by simp
next
  case (Cons e r)
  show ?case
  proof (cases "e = d")
    case True
    with Cons.prems show ?thesis by simp
  next
    case False
    with Cons.prems have "splitOn [d] (c @ [e]) r = h # t" by simp
    from Cons.IH [OF this Cons.prems(2)] show ?thesis by simp
  qed
qed

lemma prefixes_from_are_prefixes:
  "splitOn ''/'' c r = h # t \<Longrightarrow> x \<in> set (prefixes_from (A @ h) t) \<Longrightarrow>
   x = A @ c @ r \<or> prefix (x @ Delimiter) (A @ c @ r)"
proof (induction r arbitrary: c A h t)
  case Nil
  then show ?case by simp
next
  case (Cons e r)
  show ?case
  proof (cases "e = CHR ''/''")
    case False
    with Cons.prems have "splitOn ''/'' (c @ [e]) r = h # t" by simp
    from Cons.IH [OF this Cons.prems(2)] show ?thesis by simp
  next
    case True
    with Cons.prems(1) have h: "h = c" and t: "t = splitOn ''/'' [] r" by simp_all
    obtain h1 t1 where s: "splitOn ''/'' [] r = h1 # t1"
      using splitOn_not_Nil [of "''/''" "[]" r] by (cases "splitOn ''/'' [] r") auto
    from Cons.prems(2) consider "x = A @ c @ Delimiter @ h1"
      | "x \<in> set (prefixes_from ((A @ c @ Delimiter) @ h1) t1)"
      unfolding h t s by auto
    then show ?thesis
    proof cases
      case 1
      show ?thesis
      proof (cases "t1 = []")
        case True
        with s have "h1 = r" using splitOn_single [of "CHR ''/''" "[]" r h1] by simp
        with 1 \<open>e = CHR ''/''\<close> show ?thesis by (simp add: Delimiter_def)
      next
        case False
        from splitOn_head [OF s False] have "prefix (h1 @ ''/'') r" by simp
        with 1 \<open>e = CHR ''/''\<close> show ?thesis by (simp add: Delimiter_def)
      qed
    next
      case 2
      from Cons.IH [OF s 2] \<open>e = CHR ''/''\<close> show ?thesis by (simp add: Delimiter_def)
    qed
  qed
qed

lemma prefixes_from_whole:
  "splitOn ''/'' c r = h # t \<Longrightarrow> t \<noteq> [] \<Longrightarrow> A @ c @ r \<in> set (prefixes_from (A @ h) t)"
proof (induction r arbitrary: c A h t)
  case Nil
  then show ?case by simp
next
  case (Cons e r)
  show ?case
  proof (cases "e = CHR ''/''")
    case False
    with Cons.prems have "splitOn ''/'' (c @ [e]) r = h # t" by simp
    from Cons.IH [OF this Cons.prems(2), of A] show ?thesis by simp
  next
    case True
    with Cons.prems(1) have h: "h = c" and t: "t = splitOn ''/'' [] r" by simp_all
    obtain h1 t1 where s: "splitOn ''/'' [] r = h1 # t1"
      using splitOn_not_Nil [of "''/''" "[]" r] by (cases "splitOn ''/'' [] r") auto
    show ?thesis
    proof (cases "t1 = []")
      case True
      with s have "h1 = r" using splitOn_single [of "CHR ''/''" "[]" r h1] by simp
      with True \<open>e = CHR ''/''\<close> show ?thesis
        unfolding h t s by (simp add: Delimiter_def)
    next
      case False
      from Cons.IH [OF s False, of "A @ c @ Delimiter"] \<open>e = CHR ''/''\<close> show ?thesis
        unfolding h t s by (simp add: Delimiter_def)
    qed
  qed
qed

lemma ancestor_prefixes_are_prefixes:
  assumes "a \<in> set (ancestor_prefixes path)"
  shows "a = path \<or> prefix (a @ Delimiter) path"
proof -
  from assms obtain first rest where s: "splitOn ''/'' [] path = first # rest"
    and a: "a \<in> set (prefixes_from first rest)"
    by (cases "Split path Delimiter") (auto simp add: ancestor_prefixes_def Split_Delimiter)
  from prefixes_from_are_prefixes [OF s, of a "[]"] a show ?thesis by simp
qed

lemma ancestor_prefixes_whole:
  assumes "has_delimiter path"
  shows "path \<in> set (ancestor_prefixes path)"
proof -
  from assms obtain first rest where s: "splitOn ''/'' [] path = first # rest" and r: "rest \<noteq> []"
    by (cases "Split path Delimiter"; cases "tl (Split path Delimiter)")
      (auto simp add: has_delimiter_def Split_Delimiter)
  from prefixes_from_whole [OF s r, of "[]"] show ?thesis
    by (simp add: ancestor_prefixes_def Split_Delimiter s)
qed

lemmas found_parent_paths_eval = found_parent_paths_def ListFolders_where_def ListFolders_scope_def
  file_matches_def sql_like_def ToLower_def stored_file_def files_only_def unfiltered_def

lemmas emit_eval = ancestor_prefixes_def Split_def Delimiter_def

subsection \<open>The index out of range\<close>

text \<open>
  C9. The inner loop of \<open>ListFolders\<close> reads segment 1 of every selected parent folder
  path. Where the store fails nothing: if one of the selected paths has a single
  segment (it does not hold the delimiter), the read is out of range and \<open>ListFolders\<close>
  panics; if every selected path holds the delimiter, \<open>ListFolders\<close> answers a list.
\<close>

theorem ListFolders_index_out_of_range:
  "has_delimiter path = (\<exists>u v. path = u @ Delimiter @ v) \<and>
   ((\<exists>path \<in> set (found_parent_paths db parentFolderPath opts). \<not> has_delimiter path) \<longrightarrow>
      ListFolders db [] parentFolderPath (Some opts) = Inl IndexOutOfRange) \<and>
   ((\<forall>path \<in> set (found_parent_paths db parentFolderPath opts). has_delimiter path) \<longrightarrow>
      (\<exists>folders. ListFolders db [] parentFolderPath (Some opts) = Inr folders))"
  by (simp add: ListFolders_no_fault ListFolders_outer_fault ListFolders_outer_emit
      has_delimiter_contains)

text \<open>
  The theorem at a top-level file with the empty parent (listed without recursion), at
  a file with the parent \<open>docs\<close>, and at a file with the parent \<open>/docs\<close>.
\<close>

theorem ListFolders_index_out_of_range_witness:
  "ListFolders (files_only [stored_file ''top.txt'' [] []]) [] [] (unfiltered False)
     = Inl IndexOutOfRange \<and>
   ListFolders (files_only [stored_file ''docs/top.txt'' ''docs'' []]) [] [] (unfiltered True)
     = Inl IndexOutOfRange \<and>
   (\<exists>folders. ListFolders (files_only [stored_file ''/docs/top.txt'' ''/docs'' []]) [] []
      (unfiltered True) = Inr folders)"
proof -
  have a: "found_parent_paths (files_only [stored_file ''top.txt'' [] []]) []
      \<lparr>Recursive = False, PathFilters = \<lparr>allowedPrefixes = []\<rparr>\<rparr> = [[]]"
    by (simp add: found_parent_paths_eval)
  have b: "found_parent_paths (files_only [stored_file ''docs/top.txt'' ''docs'' []]) []
      \<lparr>Recursive = True, PathFilters = \<lparr>allowedPrefixes = []\<rparr>\<rparr> = [''docs'']"
    by (simp add: found_parent_paths_eval)
  have c: "found_parent_paths (files_only [stored_file ''/docs/top.txt'' ''/docs'' []]) []
      \<lparr>Recursive = True, PathFilters = \<lparr>allowedPrefixes = []\<rparr>\<rparr> = [''/docs'']"
    by (simp add: found_parent_paths_eval)
  from ListFolders_index_out_of_range
    [of "[]" "files_only [stored_file ''top.txt'' [] []]" "[]"
      "\<lparr>Recursive = False, PathFilters = \<lparr>allowedPrefixes = []\<rparr>\<rparr>"]
  have 1: "ListFolders (files_only [stored_file ''top.txt'' [] []]) [] [] (unfiltered False)
     = Inl IndexOutOfRange"
    unfolding a by (simp add: has_delimiter_iff unfiltered_def)
  from ListFolders_index_out_of_range
    [of "[]" "files_only [stored_file ''docs/top.txt'' ''docs'' []]" "[]"
      "\<lparr>Recursive = True, PathFilters = \<lparr>allowedPrefixes = []\<rparr>\<rparr>"]
  have 2: "ListFolders (files_only [stored_file ''docs/top.txt'' ''docs'' []]) [] []
      (unfiltered True) = Inl IndexOutOfRange"
    unfolding b by (simp add: has_delimiter_iff unfiltered_def)
  from ListFolders_index_out_of_range
    [of "[]" "files_only [stored_file ''/docs/top.txt'' ''/docs'' []]" "[]"
      "\<lparr>Recursive = True, PathFilters = \<lparr>allowedPrefixes = []\<rparr>\<rparr>"]
  have 3: "\<exists>folders. ListFolders (files_only [stored_file ''/docs/top.txt'' ''/docs'' []]) [] []
      (unfiltered True) = Inr folders"
    unfolding c by (simp add: has_delimiter_iff unfiltered_def)
  from 1 2 3 show ?thesis by blast
qed

subsection \<open>The folders that are synthesized\<close>

text \<open>
  C3, as amended. Where the store fails nothing and every selected parent folder path
  holds the delimiter, \<open>ListFolders\<close> answers the prefixes rebuilt from the selected
  paths (each made of two segments or more: the first segment alone is never
  entered) that are longer than \<open>parentFolderPath\<close>: each of them once, in the order
  they are rebuilt in, each with its last segment as its name. Every folder answered
  is a selected path or an ancestor of one, and every selected path longer than
  \<open>parentFolderPath\<close> is answered.
\<close>

theorem ListFolders_synthesis:
  assumes "\<forall>path \<in> set (found_parent_paths db parentFolderPath opts). has_delimiter path"
  shows "\<exists>folders. ListFolders db [] parentFolderPath (Some opts) = Inr folders \<and>
     distinct (map FullPath folders) \<and>
     set (map FullPath folders) =
       {acc \<in> set (concat (map ancestor_prefixes (found_parent_paths db parentFolderPath opts))).
          length parentFolderPath < length acc} \<and>
     subseq (map FullPath folders)
       (concat (map ancestor_prefixes (found_parent_paths db parentFolderPath opts))) \<and>
     (\<forall>f \<in> set folders. \<exists>acc seg.
        FullPath f = acc @ Delimiter @ seg \<and> \<not> has_delimiter seg \<and> Name f = seg) \<and>
     (\<forall>f \<in> set folders. \<exists>path \<in> set (found_parent_paths db parentFolderPath opts).
        FullPath f = path \<or> prefix (FullPath f @ Delimiter) path) \<and>
     (\<forall>path \<in> set (found_parent_paths db parentFolderPath opts).
        length parentFolderPath < length path \<longrightarrow> path \<in> set (map FullPath folders))"
proof -
  let ?found = "found_parent_paths db parentFolderPath opts"
  let ?accs = "concat (map ancestor_prefixes ?found)"
  let ?folders = "snd (emit parentFolderPath ?accs (\<lambda>acc. False) [])"
  have run: "ListFolders db [] parentFolderPath (Some opts) = Inr ?folders"
    using assms by (simp add: ListFolders_no_fault ListFolders_outer_emit)
  have d: "distinct (map FullPath ?folders)"
    by (rule emit_distinct) simp_all
  have s: "set (map FullPath ?folders) = {acc \<in> set ?accs. length parentFolderPath < length acc}"
    by (subst emit_set) simp
  have o: "subseq (map FullPath ?folders) ?accs"
    using emit_subseq [of parentFolderPath ?accs "\<lambda>acc. False" "[]"] by auto
  have n: "\<forall>f \<in> set ?folders. \<exists>acc seg.
        FullPath f = acc @ Delimiter @ seg \<and> \<not> has_delimiter seg \<and> Name f = seg"
  proof
    fix f assume "f \<in> set ?folders"
    from emit_entries [OF this] obtain a where a: "a \<in> set ?accs" and f: "f = folder_entry a"
      by auto
    from a obtain path where "a \<in> set (ancestor_prefixes path)" by auto
    from ancestor_prefixes_form [OF this] obtain acc seg where
      "a = acc @ Delimiter @ seg" and "\<not> has_delimiter seg"
      by blast
    with f show "\<exists>acc seg. FullPath f = acc @ Delimiter @ seg \<and> \<not> has_delimiter seg \<and> Name f = seg"
      by (auto simp add: FullPath_folder_entry Name_folder_entry getName_joined)
  qed
  have p: "\<forall>f \<in> set ?folders. \<exists>path \<in> set ?found.
        FullPath f = path \<or> prefix (FullPath f @ Delimiter) path"
  proof
    fix f assume "f \<in> set ?folders"
    from emit_entries [OF this] obtain a where a: "a \<in> set ?accs" and f: "f = folder_entry a"
      by auto
    from a obtain path where path: "path \<in> set ?found" and "a \<in> set (ancestor_prefixes path)"
      by auto
    from ancestor_prefixes_are_prefixes [OF this(2)] path f
    show "\<exists>path \<in> set ?found. FullPath f = path \<or> prefix (FullPath f @ Delimiter) path"
      by (auto simp add: FullPath_folder_entry)
  qed
  have w: "\<forall>path \<in> set ?found.
        length parentFolderPath < length path \<longrightarrow> path \<in> set (map FullPath ?folders)"
  proof (intro ballI impI)
    fix path assume path: "path \<in> set ?found" and long: "length parentFolderPath < length path"
    from assms path have "has_delimiter path" by blast
    then have "path \<in> set (ancestor_prefixes path)" by (rule ancestor_prefixes_whole)
    with path have "path \<in> set ?accs" by auto
    with long show "path \<in> set (map FullPath ?folders)"
      unfolding s by simp
  qed
  show ?thesis
    apply (rule exI [of _ ?folders])
    apply (intro conjI)
          apply (rule run)
         apply (rule d)
        apply (rule s)
       apply (rule o)
      apply (rule n)
     apply (rule p)
    apply (rule w)
    done
qed

text \<open>
  The theorem at the store that holds only \<open>/a/b/c/file.txt\<close>: the recursive listing of
  the empty folder path is \<open>/a\<close>, \<open>/a/b\<close>, \<open>/a/b/c\<close>, once each and ascending.
\<close>

lemma ListFolders_example_found:
  "found_parent_paths (files_only [stored_file ''/a/b/c/file.txt'' ''/a/b/c'' []]) []
      \<lparr>Recursive = True, PathFilters = \<lparr>allowedPrefixes = []\<rparr>\<rparr> = [''/a/b/c'']"
  by (simp add: found_parent_paths_eval)

lemma ListFolders_example:
  "ListFolders (files_only [stored_file ''/a/b/c/file.txt'' ''/a/b/c'' []]) [] [] (unfiltered True)
   = Inr [folder_entry ''/a'', folder_entry ''/a/b'', folder_entry ''/a/b/c'']"
  unfolding unfiltered_def ListFolders_no_fault ListFolders_example_found
  by (subst ListFolders_outer_emit) (simp_all add: has_delimiter_iff emit_eval)

theorem ListFolders_synthesis_witness:
  "\<exists>folders.
     list_all has_delimiter
       (found_parent_paths (files_only [stored_file ''/a/b/c/file.txt'' ''/a/b/c'' []]) []
          \<lparr>Recursive = True, PathFilters = \<lparr>allowedPrefixes = []\<rparr>\<rparr>) \<and>
     ListFolders (files_only [stored_file ''/a/b/c/file.txt'' ''/a/b/c'' []]) [] [] (unfiltered True)
       = Inr folders \<and>
     map FullPath folders = [''/a'', ''/a/b'', ''/a/b/c''] \<and>
     map Name folders = [''a'', ''b'', ''c''] \<and>
     sorted (map FullPath folders) \<and>
     distinct (map FullPath folders)"
proof -
  have h: "\<forall>path \<in> set (found_parent_paths
      (files_only [stored_file ''/a/b/c/file.txt'' ''/a/b/c'' []]) []
      \<lparr>Recursive = True, PathFilters = \<lparr>allowedPrefixes = []\<rparr>\<rparr>). has_delimiter path"
    by (simp add: ListFolders_example_found has_delimiter_iff)
  from ListFolders_synthesis [OF h] obtain folders where
    run: "ListFolders (files_only [stored_file ''/a/b/c/file.txt'' ''/a/b/c'' []]) [] []
      (Some \<lparr>Recursive = True, PathFilters = \<lparr>allowedPrefixes = []\<rparr>\<rparr>) = Inr folders"
    and d: "distinct (map FullPath folders)"
    by blast
  from run have folders: "folders = [folder_entry ''/a'', folder_entry ''/a/b'', folder_entry ''/a/b/c'']"
    using ListFolders_example by (simp add: unfiltered_def)
  have names: "map Name folders = [''a'', ''b'', ''c'']"
    unfolding folders by (simp add: folder_entry_def getName_def Split_def Delimiter_def)
  from h run d folders names show ?thesis
    by (simp add: list_all_iff unfiltered_def FullPath_folder_entry)
qed

text \<open>
  The claim as it was stated fails twice. For the file \<open>a/b/c/file.txt\<close> the listing
  is \<open>a/b\<close>, \<open>a/b/c\<close>: the folder \<open>a\<close> is not entered. For the parent folders \<open>/a/b\<close>
  and \<open>/a-b\<close> the listing is \<open>/a-b\<close>, \<open>/a\<close>, \<open>/a/b\<close>, which is not ascending.
\<close>

theorem ListFolders_first_segment_and_order_counterexample:
  "ListFolders (files_only [stored_file ''a/b/c/file.txt'' ''a/b/c'' []]) [] [] (unfiltered True)
     = Inr [folder_entry ''a/b'', folder_entry ''a/b/c''] \<and>
   ListFolders (files_only [stored_file ''/a/b/f'' ''/a/b'' [], stored_file ''/a-b/g'' ''/a-b'' []])
       [] [] (unfiltered True)
     = Inr [folder_entry ''/a-b'', folder_entry ''/a'', folder_entry ''/a/b''] \<and>
   \<not> sorted [''/a-b'', ''/a'', ''/a/b'']"
proof -
  have a: "found_parent_paths (files_only [stored_file ''a/b/c/file.txt'' ''a/b/c'' []]) []
      \<lparr>Recursive = True, PathFilters = \<lparr>allowedPrefixes = []\<rparr>\<rparr> = [''a/b/c'']"
    by (simp add: found_parent_paths_eval)
  have b: "found_parent_paths
      (files_only [stored_file ''/a/b/f'' ''/a/b'' [], stored_file ''/a-b/g'' ''/a-b'' []]) []
      \<lparr>Recursive = True, PathFilters = \<lparr>allowedPrefixes = []\<rparr>\<rparr> = [''/a-b'', ''/a/b'']"
    by (simp add: found_parent_paths_eval)
  have 1: "ListFolders (files_only [stored_file ''a/b/c/file.txt'' ''a/b/c'' []]) [] []
      (unfiltered True) = Inr [folder_entry ''a/b'', folder_entry ''a/b/c'']"
    unfolding unfiltered_def ListFolders_no_fault a
    by (subst ListFolders_outer_emit) (simp_all add: has_delimiter_iff emit_eval)
  have 2: "ListFolders
      (files_only [stored_file ''/a/b/f'' ''/a/b'' [], stored_file ''/a-b/g'' ''/a-b'' []])
      [] [] (unfiltered True)
     = Inr [folder_entry ''/a-b'', folder_entry ''/a'', folder_entry ''/a/b'']"
    unfolding unfiltered_def ListFolders_no_fault b
    by (subst ListFolders_outer_emit) (simp_all add: has_delimiter_iff emit_eval)
  have 3: "\<not> sorted [''/a-b'', ''/a'', ''/a/b'']" by simp
  from 1 2 3 show ?thesis by blast
qed

section \<open>The recursive scope of ListFiles and of ListFolders\<close>








section \<open>Path filters\<close>

text \<open>
  C5. The filters are conditions \<open>LOWER(path) LIKE prefix%\<close>, all of which a listed
  row passes, and the prefix is put into the pattern as it is: an allowed prefix
  \<open>/team_1/\<close> also admits the path \<open>/teamX1/secret\<close>, which does not start with it.
\<close>

theorem ListFiles_prefix_pattern_characters:
  "\<exists>resp. ListFiles marker_example (files_only [stored_file ''/teamX1/secret'' ''/teamX1'' [1]]) []
       ''/'' (Some \<lparr>After = [], First = 10\<rparr>)
       (Some \<lparr>Recursive = True, PathFilters = \<lparr>allowedPrefixes = [''/team_1/'']\<rparr>\<rparr>) = Inr resp \<and>
     map FullPath (Files resp) = [''/teamX1/secret''] \<and>
     \<not> prefix (ToLower ''/team_1/'') (ToLower ''/teamX1/secret'')"
proof -
  have rows: "fetched_rows marker_example
       (files_only [stored_file ''/teamX1/secret'' ''/teamX1'' [1]])
       ''/'' \<lparr>After = [], First = 10\<rparr>
       \<lparr>Recursive = True, PathFilters = \<lparr>allowedPrefixes = [''/team_1/'']\<rparr>\<rparr>
     = [stored_file ''/teamX1/secret'' ''/teamX1'' [1]]"
    by (simp add: fetched_rows_eval)
  have "\<not> prefix (ToLower ''/team_1/'') (ToLower ''/teamX1/secret'')"
    by (simp add: ToLower_def)
  with ListFiles_no_fault_result
    [of marker_example "files_only [stored_file ''/teamX1/secret'' ''/teamX1'' [1]]"
      "''/''" "\<lparr>After = [], First = 10\<rparr>"
      "\<lparr>Recursive = True, PathFilters = \<lparr>allowedPrefixes = [''/team_1/'']\<rparr>\<rparr>"]
  show ?thesis
    unfolding rows
    by (auto simp add: FullPath_toFileMetadata stored_file_def)
qed

text \<open>
  For allowed prefixes without the pattern characters \<open>%\<close> and \<open>_\<close> every listed path
  starts with every allowed prefix, in lower case; and the rows that do not pass the
  filters have no effect on the answer.
\<close>

lemma ListFiles_literal_prefixes:
  assumes "ListFiles directoryMarker db fs folderPath paging (Some opts) = Inr resp"
    and "\<forall>p \<in> set (allowedPrefixes (PathFilters opts)).
           CHR ''%'' \<notin> set (ToLower p) \<and> CHR ''_'' \<notin> set (ToLower p)"
  shows "\<forall>f \<in> set (Files resp). \<forall>p \<in> set (allowedPrefixes (PathFilters opts)).
           prefix (ToLower p) (ToLower (FullPath f))"
proof (intro ballI)
  fix f p
  assume f: "f \<in> set (Files resp)" and p: "p \<in> set (allowedPrefixes (PathFilters opts))"
  from ListFiles_listed_row [OF assms(1) f] obtain pg r where
    m: "file_matches (ListFiles_where directoryMarker folderPath pg opts) r"
    and e: "FullPath f = file_row.Path r"
    by auto
  from m have "\<forall>c \<in> set (map (\<lambda>prefix. LowerPathLike (ToLower prefix @ ''%''))
      (allowedPrefixes (PathFilters opts))). file_holds c r"
    by (simp add: file_matches_def ListFiles_where_def list_all_iff)
  with p have "file_holds (LowerPathLike (ToLower p @ ''%'')) r"
    by simp
  then have "sql_like (ToLower (file_row.Path r)) (ToLower p @ ''%'')"
    by simp
  with assms(2) p e show "prefix (ToLower p) (ToLower (FullPath f))"
    by (simp add: sql_like_def like_match_literal_prefix)
qed

lemma ListFiles_out_of_scope_rows:
  "ListFiles directoryMarker db fs folderPath paging (Some opts) =
   ListFiles directoryMarker
     (db\<lparr>file_tbl := filter (\<lambda>r. \<forall>p \<in> set (allowedPrefixes (PathFilters opts)).
        sql_like (ToLower (file_row.Path r)) (ToLower p @ ''%'')) (file_tbl db)\<rparr>)
     fs folderPath paging (Some opts)"
proof -
  have "filter (file_matches (ListFiles_where directoryMarker folderPath pg opts))
      (filter (\<lambda>r. \<forall>p \<in> set (allowedPrefixes (PathFilters opts)).
        sql_like (ToLower (file_row.Path r)) (ToLower p @ ''%'')) (file_tbl db))
    = filter (file_matches (ListFiles_where directoryMarker folderPath pg opts)) (file_tbl db)" for pg
    by (auto simp add: file_matches_def ListFiles_where_def list_all_iff intro!: filter_cong)
  then show ?thesis
    by (cases paging)
      (simp_all add: ListFiles_def ListFiles_callback_def WithDbSession_def Find_files_by_path_def
        getProperties_def Find_meta_def stmt_def stmt_fails_def advance_def Let_def
        split: prod.splits)
qed

section \<open>Upsert and Get\<close>

lemma stmt_Inr:
  "stmt sess result change = (Inr x, sess1) \<Longrightarrow>
   x = result (tables sess) \<and> tables sess1 = change (tables sess) \<and> begun sess1 = begun sess \<and>
   faults sess1 = tl (faults sess)"
  by (auto simp add: stmt_def advance_def split: if_splits)

lemma stmt_Inl:
  "stmt sess result change = (Inl e, sess1) \<Longrightarrow>
   tables sess1 = tables sess \<and> begun sess1 = begun sess \<and> faults sess1 = tl (faults sess)"
  by (auto simp add: stmt_def advance_def split: if_splits)

lemma upsertProperty_file_tbl:
  "upsertProperty sess now path key val = (r, sess1) \<Longrightarrow>
   file_tbl (tables sess1) = file_tbl (tables sess) \<and> begun sess1 = begun sess"
  by (auto simp add: upsertProperty_def Get_meta_def Update_meta_def Insert_meta_def
      split: prod.splits sum.splits option.splits dest!: stmt_Inr stmt_Inl)

lemma upsertProperties_loop_file_tbl:
  "upsertProperties_loop sess now path props = (r, sess1) \<Longrightarrow>
   file_tbl (tables sess1) = file_tbl (tables sess) \<and> begun sess1 = begun sess"
proof (induction props arbitrary: sess)
  case Nil
  then show ?case by simp
next
  case (Cons kv props)
  obtain key val where kv: "kv = (key, val)" by (cases kv)
  obtain r0 sess0 where u: "upsertProperty sess now path key val = (r0, sess0)"
    by (cases "upsertProperty sess now path key val")
  from upsertProperty_file_tbl [OF u] Cons.prems Cons.IH [of sess0] u kv show ?case
    by (cases r0) auto
qed

lemma upsertProperties_file_tbl:
  "upsertProperties sess now cmd = (r, sess1) \<Longrightarrow>
   file_tbl (tables sess1) = file_tbl (tables sess) \<and> begun sess1 = begun sess"
  by (auto simp add: upsertProperties_def dest: upsertProperties_loop_file_tbl split: if_splits)

lemma upsertProperty_no_fault:
  "faults sess = [] \<Longrightarrow>
   \<exists>sess1. upsertProperty sess now path key val = (None, sess1) \<and> faults sess1 = []"
  by (simp add: upsertProperty_def Get_meta_def Update_meta_def Insert_meta_def stmt_no_fault
      split: option.splits)

lemma upsertProperties_loop_no_fault:
  "faults sess = [] \<Longrightarrow>
   \<exists>sess1. upsertProperties_loop sess now path props = (None, sess1) \<and> faults sess1 = []"
proof (induction props arbitrary: sess)
  case Nil
  then show ?case by simp
next
  case (Cons kv props)
  obtain key val where kv: "kv = (key, val)" by (cases kv)
  from upsertProperty_no_fault [OF Cons.prems] obtain sess0 where
    u: "upsertProperty sess now path key val = (None, sess0)" and f: "faults sess0 = []"
    by blast
  from Cons.IH [OF f] u kv show ?case by simp
qed

lemma upsertProperties_no_fault:
  "faults sess = [] \<Longrightarrow>
   \<exists>sess1. upsertProperties sess now cmd = (None, sess1) \<and> faults sess1 = []"
  by (simp add: upsertProperties_def upsertProperties_loop_no_fault)

text \<open>
  An \<open>Upsert\<close> that answers no error leaves the file table \<open>upserted_files\<close>, whatever
  the store failed; on a store that fails nothing \<open>Upsert\<close> answers no error; and an
  \<open>Upsert\<close> that answers an error leaves the store as it was.
\<close>

lemma Upsert_file_tbl:
  assumes "Upsert getParentFolderPath now db fs cmd = (None, db1)"
  shows "file_tbl db1 = upserted_files getParentFolderPath now cmd (file_tbl db)"
proof -
  let ?sess = "\<lparr>tables = db, begun = Some db, faults = fs\<rparr>"
  from assms obtain sess3 where
    cb: "Upsert_callback getParentFolderPath now cmd ?sess = (None, sess3)"
    and db1: "db1 = tables sess3"
    by (auto simp add: Upsert_def WithTransactionalDbSession_def split: prod.splits option.splits)
  from cb show ?thesis
    unfolding db1 Upsert_callback_def Get_file_def Update_file_def Insert_file_def
    by (auto simp add: Let_def upserted_files_def updated_row_def inserted_row_def
        split: prod.splits sum.splits option.splits
        dest!: stmt_Inr stmt_Inl upsertProperties_file_tbl)
qed

lemma Upsert_no_fault: "\<exists>db1. Upsert getParentFolderPath now db [] cmd = (None, db1)"
proof -
  let ?sess = "\<lparr>tables = db, begun = Some db, faults = []\<rparr>"
  have "\<exists>sess3. Upsert_callback getParentFolderPath now cmd ?sess = (None, sess3)"
  proof (cases "find (file_matches [LowerPathEq (ToLower (UpsertFileCommand.Path cmd))]) (file_tbl db)")
    case None
    let ?sess2 = "?sess\<lparr>tables := db\<lparr>file_tbl := file_tbl db @ [inserted_row getParentFolderPath now cmd]\<rparr>\<rparr>"
    from upsertProperties_no_fault [of ?sess2 now cmd] obtain sess3 where
      "upsertProperties ?sess2 now cmd = (None, sess3)" by auto
    with None show ?thesis
      by (simp add: Upsert_callback_def Get_file_def Insert_file_def stmt_no_fault Let_def
          inserted_row_def)
  next
    case (Some existing)
    let ?sess2 = "?sess\<lparr>tables := db\<lparr>file_tbl :=
      map (\<lambda>r. if file_matches [LowerPathEq (ToLower (UpsertFileCommand.Path cmd))] r
                   then written_file (updated_row now cmd existing) r else r) (file_tbl db)\<rparr>\<rparr>"
    from upsertProperties_no_fault [of ?sess2 now cmd] obtain sess3 where
      "upsertProperties ?sess2 now cmd = (None, sess3)" by auto
    with Some show ?thesis
      by (simp add: Upsert_callback_def Get_file_def Update_file_def stmt_no_fault Let_def
          updated_row_def cong: if_cong)
  qed
  then show ?thesis
    by (auto simp add: Upsert_def WithTransactionalDbSession_def)
qed

lemma Upsert_error_rolls_back:
  "Upsert getParentFolderPath now db fs cmd = (Some err, db1) \<Longrightarrow> db1 = db"
  by (auto simp add: Upsert_def WithTransactionalDbSession_def split: prod.splits option.splits)

lemma Get_found:
  assumes "find (file_matches [LowerPathEq (ToLower filePath)]) (file_tbl db) = Some row"
  shows "\<exists>f. Get db [] filePath = Inr (Some f) \<and>
     File.Contents f = file_row.Contents row \<and>
     FullPath (FileMetadata f) = file_row.Path row \<and>
     FileMetadata.Size (FileMetadata f) = file_row.Size row \<and>
     FileMetadata.MimeType (FileMetadata f) = file_row.MimeType row \<and>
     FileMetadata.Created (FileMetadata f) = file_row.Created row \<and>
     Modified (FileMetadata f) = file_row.Updated row"
  using assms
  by (simp add: Get_def Get_callback_def WithDbSession_def Get_file_def Find_meta_def
      stmt_no_fault)

lemma Get_absent:
  "find (file_matches [LowerPathEq (ToLower filePath)]) (file_tbl db) = None \<Longrightarrow>
   Get db fs filePath = Inr None"
  by (simp add: Get_def Get_callback_def WithDbSession_def Get_file_def stmt_def
      split: prod.splits sum.splits option.splits)

lemma find_written:
  "find P xs = Some x \<Longrightarrow> P (g x) \<Longrightarrow> find P (map (\<lambda>r. if P r then g r else r) xs) = Some (g x)"
  by (induction xs) (auto split: if_splits)

lemma find_appended: "find P xs = None \<Longrightarrow> P b \<Longrightarrow> find P (xs @ [b]) = Some b"
  by (induction xs) (auto split: if_splits)

text \<open>
  The row that \<open>Get\<close> finds after an \<open>Upsert\<close>: the inserted row where the path was new,
  and where it was not, the row that was found with the columns written to it.
\<close>

lemma find_upserted_new:
  assumes "find (file_matches [LowerPathEq (ToLower (UpsertFileCommand.Path cmd))]) rows = None"
  shows "find (file_matches [LowerPathEq (ToLower (UpsertFileCommand.Path cmd))])
       (upserted_files getParentFolderPath now cmd rows)
     = Some (inserted_row getParentFolderPath now cmd)"
proof -
  have "file_matches [LowerPathEq (ToLower (UpsertFileCommand.Path cmd))]
      (inserted_row getParentFolderPath now cmd)"
    by (simp add: file_matches_def inserted_row_def)
  from find_appended [OF assms this] assms show ?thesis
    by (simp add: upserted_files_def)
qed

lemma find_upserted_existing:
  assumes "find (file_matches [LowerPathEq (ToLower (UpsertFileCommand.Path cmd))]) rows
      = Some existing"
  shows "find (file_matches [LowerPathEq (ToLower (UpsertFileCommand.Path cmd))])
       (upserted_files getParentFolderPath now cmd rows)
     = Some (written_file (updated_row now cmd existing) existing)"
proof -
  from assms have "file_matches [LowerPathEq (ToLower (UpsertFileCommand.Path cmd))] existing"
    by (auto simp add: find_Some_iff)
  then have "file_matches [LowerPathEq (ToLower (UpsertFileCommand.Path cmd))]
      (written_file (updated_row now cmd existing) existing)"
    by (simp add: file_matches_def written_file_def updated_row_def split: option.splits)
  from find_written [of _ rows existing "written_file (updated_row now cmd existing)", OF assms this]
    assms
  show ?thesis
    by (simp add: upserted_files_def)
qed

text \<open>
  \<open>Upsert\<close> of contents and then \<open>Get\<close>, where the path is new or the contents are not
  empty: \<open>Get\<close> answers the contents and their length.
\<close>

lemma Upsert_then_Get_new_or_nonempty:
  assumes "UpsertFileCommand.Contents cmd = Some c"
    and "c \<noteq> [] \<or>
      find (file_matches [LowerPathEq (ToLower (UpsertFileCommand.Path cmd))]) (file_tbl db) = None"
    and "Upsert getParentFolderPath now db fs cmd = (None, db1)"
  shows "\<exists>f. Get db1 [] (UpsertFileCommand.Path cmd) = Inr (Some f) \<and>
     File.Contents f = c \<and> FileMetadata.Size (FileMetadata f) = int (length c)"
proof -
  let ?P = "file_matches [LowerPathEq (ToLower (UpsertFileCommand.Path cmd))]"
  from assms(3) have t: "file_tbl db1 = upserted_files getParentFolderPath now cmd (file_tbl db)"
    by (rule Upsert_file_tbl)
  have "\<exists>row. find ?P (file_tbl db1) = Some row \<and> file_row.Contents row = c \<and>
      file_row.Size row = int (length c)"
  proof (cases "find ?P (file_tbl db)")
    case None
    from find_upserted_new [OF None] assms(1) show ?thesis
      unfolding t by (simp add: inserted_row_def)
  next
    case (Some existing)
    with assms(2) have "c \<noteq> []" by simp
    with find_upserted_existing [OF Some] assms(1) show ?thesis
      unfolding t by (simp add: written_file_def updated_row_def)
  qed
  then obtain row where "find ?P (file_tbl db1) = Some row"
    and "file_row.Contents row = c" and "file_row.Size row = int (length c)"
    by blast
  with Get_found [of "UpsertFileCommand.Path cmd" db1 row] show ?thesis
    by auto
qed

text \<open>
  \<open>Upsert\<close> of empty contents on a path that has a row, and then \<open>Get\<close>: \<open>Get\<close> answers
  the contents and the size that the row had.
\<close>

lemma Upsert_empty_then_Get_existing:
  assumes "UpsertFileCommand.Contents cmd = Some []"
    and "find (file_matches [LowerPathEq (ToLower (UpsertFileCommand.Path cmd))]) (file_tbl db)
      = Some existing"
    and "Upsert getParentFolderPath now db fs cmd = (None, db1)"
  shows "\<exists>f. Get db1 [] (UpsertFileCommand.Path cmd) = Inr (Some f) \<and>
     File.Contents f = file_row.Contents existing \<and>
     FileMetadata.Size (FileMetadata f) = file_row.Size existing"
proof -
  from assms(3) have t: "file_tbl db1 = upserted_files getParentFolderPath now cmd (file_tbl db)"
    by (rule Upsert_file_tbl)
  from find_upserted_existing [OF assms(2)]
  have "find (file_matches [LowerPathEq (ToLower (UpsertFileCommand.Path cmd))]) (file_tbl db1)
      = Some (written_file (updated_row now cmd existing) existing)"
    unfolding t .
  from Get_found [OF this] assms(1) show ?thesis
    by (auto simp add: written_file_def updated_row_def)
qed

text \<open>
  C6. \<open>Upsert\<close> hands the row it found, with the new contents and their length, to
  \<open>Update\<close> with no selection of columns, and \<open>Update\<close> leaves out the columns whose
  value is empty or 0. On a store that holds \<open>/A.TXT\<close> with one byte, \<open>Upsert\<close> of
  \<open>/a.txt\<close> with empty contents answers no error and leaves contents and size as they
  were; the \<open>Get\<close> that follows answers a file with that one byte and size 1, not the
  empty contents and size 0.
\<close>

theorem Upsert_empty_contents_then_Get:
  "Upsert (\<lambda>path. ''/'') 5
     (files_only [\<lparr>file_row.Path = ''/A.TXT'', ParentFolderPath = ''/'', Contents = [9],
        Updated = 1, Created = 1, Size = 1, MimeType = ''text/plain''\<rparr>]) []
     \<lparr>UpsertFileCommand.Path = ''/a.txt'', MimeType = ''text/plain'', Contents = Some [],
      Properties = []\<rparr>
   = (None,
      files_only [\<lparr>file_row.Path = ''/A.TXT'', ParentFolderPath = ''/'', Contents = [9],
        Updated = 5, Created = 1, Size = 1, MimeType = ''text/plain''\<rparr>]) \<and>
   Get (files_only [\<lparr>file_row.Path = ''/A.TXT'', ParentFolderPath = ''/'', Contents = [9],
        Updated = 5, Created = 1, Size = 1, MimeType = ''text/plain''\<rparr>]) [] ''/a.txt''
   = Inr (Some \<lparr>File.Contents = [9],
        FileMetadata = \<lparr>Name = ''A.TXT'', FullPath = ''/A.TXT'', Created = 1,
          Properties = Map.empty, Modified = 5, Size = 1, MimeType = ''text/plain''\<rparr>\<rparr>)"
  by (simp add: Upsert_def WithTransactionalDbSession_def Upsert_callback_def Get_file_def
      Update_file_def upsertProperties_def stmt_no_fault written_file_def files_only_def
      file_matches_def ToLower_def Get_def Get_callback_def WithDbSession_def Find_meta_def
      getName_def Split_def Delimiter_def)

text \<open>
  \<open>Upsert\<close> on a path whose row exists (the paths of the table are unique, compared in
  lower case): the table after it is the table before it with the columns of
  \<open>updated_row\<close> written to that one row. The row keeps its path, parent folder path and
  created timestamp; without contents in the command it keeps its contents, mime type
  and size; with contents it gets the contents and their length where the contents are
  not empty, and the mime type of the command where that is not empty.
\<close>

lemma Upsert_existing_row_written:
  assumes "distinct (map (\<lambda>r. ToLower (file_row.Path r)) (file_tbl db))"
    and "existing \<in> set (file_tbl db)"
    and "ToLower (file_row.Path existing) = ToLower (UpsertFileCommand.Path cmd)"
  shows "(\<exists>db1. Upsert getParentFolderPath now db [] cmd = (None, db1)) \<and>
     (\<forall>fs db1. Upsert getParentFolderPath now db fs cmd = (None, db1) \<longrightarrow>
        file_tbl db1 =
          map (\<lambda>r. if r = existing then written_file (updated_row now cmd existing) existing
                    else r) (file_tbl db))"
proof -
  let ?P = "file_matches [LowerPathEq (ToLower (UpsertFileCommand.Path cmd))]"
  have only: "?P r = (r = existing)" if "r \<in> set (file_tbl db)" for r
    using assms that by (auto simp add: file_matches_def distinct_map inj_on_def)
  from assms(2) only obtain x where "find ?P (file_tbl db) = Some x"
    by (cases "find ?P (file_tbl db)") (auto simp add: find_None_iff)
  moreover from this have "x \<in> set (file_tbl db)" and "?P x"
    by (auto simp add: find_Some_iff)
  ultimately have found: "find ?P (file_tbl db) = Some existing"
    using only by auto
  have tbl: "upserted_files getParentFolderPath now cmd (file_tbl db) =
      map (\<lambda>r. if r = existing then written_file (updated_row now cmd existing) existing
                else r) (file_tbl db)"
    using only by (auto simp add: upserted_files_def found)
  have run: "\<exists>db1. Upsert getParentFolderPath now db [] cmd = (None, db1)"
    by (rule Upsert_no_fault)
  have result: "\<forall>fs db1. Upsert getParentFolderPath now db fs cmd = (None, db1) \<longrightarrow>
        file_tbl db1 =
          map (\<lambda>r. if r = existing then written_file (updated_row now cmd existing) existing
                    else r) (file_tbl db)"
    using Upsert_file_tbl tbl by simp
  from run result show ?thesis
    by (intro conjI) simp_all
qed

lemma written_updated_row:
  "file_row.Path (written_file (updated_row now cmd existing) existing) = file_row.Path existing \<and>
   ParentFolderPath (written_file (updated_row now cmd existing) existing)
     = ParentFolderPath existing \<and>
   file_row.Created (written_file (updated_row now cmd existing) existing)
     = file_row.Created existing \<and>
   file_row.Updated (written_file (updated_row now cmd existing) existing)
     = (if now = 0 then file_row.Updated existing else now) \<and>
   (UpsertFileCommand.Contents cmd = None \<longrightarrow>
      file_row.Contents (written_file (updated_row now cmd existing) existing)
        = file_row.Contents existing \<and>
      file_row.MimeType (written_file (updated_row now cmd existing) existing)
        = file_row.MimeType existing \<and>
      file_row.Size (written_file (updated_row now cmd existing) existing)
        = file_row.Size existing) \<and>
   (\<forall>contents. UpsertFileCommand.Contents cmd = Some contents \<longrightarrow>
      file_row.Contents (written_file (updated_row now cmd existing) existing)
        = (if contents = [] then file_row.Contents existing else contents) \<and>
      file_row.MimeType (written_file (updated_row now cmd existing) existing)
        = (if UpsertFileCommand.MimeType cmd = [] then file_row.MimeType existing
           else UpsertFileCommand.MimeType cmd) \<and>
      file_row.Size (written_file (updated_row now cmd existing) existing)
        = (if contents = [] then file_row.Size existing else int (length contents)))"
  by (simp add: written_file_def updated_row_def split: option.splits)

text \<open>
  C7. On a store that holds \<open>/x/Data.bin\<close> with two bytes and the mime type
  \<open>text/plain\<close>: \<open>Upsert\<close> of that path with empty contents and the mime type
  \<open>image/png\<close> answers no error and leaves the contents and the size 2 as they were (the
  mime type and the updated timestamp are written); \<open>Upsert\<close> with three bytes and an
  empty mime type leaves the mime type as it was. \<open>Update\<close> is called with no selection
  of columns and leaves out the columns whose value is empty or 0.
\<close>

theorem Upsert_existing_row_zero_values_kept:
  "Upsert (\<lambda>path. ''/x'') 5
     (files_only [\<lparr>file_row.Path = ''/x/Data.bin'', ParentFolderPath = ''/x'', Contents = [7, 8],
        Updated = 1, Created = 1, Size = 2, MimeType = ''text/plain''\<rparr>]) []
     \<lparr>UpsertFileCommand.Path = ''/x/data.bin'', MimeType = ''image/png'', Contents = Some [],
      Properties = []\<rparr>
   = (None,
      files_only [\<lparr>file_row.Path = ''/x/Data.bin'', ParentFolderPath = ''/x'', Contents = [7, 8],
        Updated = 5, Created = 1, Size = 2, MimeType = ''image/png''\<rparr>]) \<and>
   Upsert (\<lambda>path. ''/x'') 5
     (files_only [\<lparr>file_row.Path = ''/x/Data.bin'', ParentFolderPath = ''/x'', Contents = [7, 8],
        Updated = 1, Created = 1, Size = 2, MimeType = ''text/plain''\<rparr>]) []
     \<lparr>UpsertFileCommand.Path = ''/x/data.bin'', MimeType = [], Contents = Some [1, 2, 3],
      Properties = []\<rparr>
   = (None,
      files_only [\<lparr>file_row.Path = ''/x/Data.bin'', ParentFolderPath = ''/x'',
        Contents = [1, 2, 3], Updated = 5, Created = 1, Size = 3, MimeType = ''text/plain''\<rparr>])"
  by (simp add: Upsert_def WithTransactionalDbSession_def Upsert_callback_def Get_file_def
      Update_file_def upsertProperties_def stmt_no_fault written_file_def files_only_def
      file_matches_def ToLower_def)

section \<open>Paging\<close>

lemma fetched_rows_page:
  assumes "1 \<le> n" and "n < 2 ^ 63" and "int (length (file_tbl db)) < 2 ^ 63"
  shows "take (nat n) (fetched_rows directoryMarker db folderPath \<lparr>After = a, First = n\<rparr> opts) =
      take (nat n) (matching_rows directoryMarker db folderPath \<lparr>After = a, First = n\<rparr> opts)"
    and "(int (length (fetched_rows directoryMarker db folderPath \<lparr>After = a, First = n\<rparr> opts))
        = wrap_int (n + 1)) =
      (nat n < length (matching_rows directoryMarker db folderPath \<lparr>After = a, First = n\<rparr> opts))"
    and "(int (length (fetched_rows directoryMarker db folderPath \<lparr>After = a, First = n\<rparr> opts))
        = n + 1) =
      (nat n < length (matching_rows directoryMarker db folderPath \<lparr>After = a, First = n\<rparr> opts))"
proof -
  let ?rows = "matching_rows directoryMarker db folderPath \<lparr>After = a, First = n\<rparr> opts"
  let ?fetched = "fetched_rows directoryMarker db folderPath \<lparr>After = a, First = n\<rparr> opts"
  have len: "int (length ?rows) < 2 ^ 63"
  proof -
    have "length ?rows \<le> length (file_tbl db)"
      by (simp add: matching_rows_def)
    with assms(3) show ?thesis by linarith
  qed
  have "take (nat n) ?fetched = take (nat n) ?rows \<and>
    (int (length ?fetched) = wrap_int (n + 1)) = (nat n < length ?rows) \<and>
    (int (length ?fetched) = n + 1) = (nat n < length ?rows)"
  proof (cases "n + 1 < 2 ^ 63")
    case True
    with assms have w: "wrap_int (n + 1) = n + 1"
      by (intro wrap_int_id) simp_all
    with assms have f: "?fetched = take (nat (n + 1)) ?rows"
      by (simp add: fetched_rows_def limit_rows_def)
    from assms show ?thesis
      unfolding f w by (auto simp add: min_def nat_add_distrib)
  next
    case False
    with assms have n: "n + 1 = 2 ^ 63" by simp
    have w: "wrap_int (n + 1) = - (2 ^ 63)"
      unfolding n by (rule wrap_int_max)
    then have f: "?fetched = ?rows"
      by (simp add: fetched_rows_def limit_rows_def)
    from len n have small: "\<not> nat n < length ?rows" by linarith
    with len n show ?thesis
      unfolding f w by simp
  qed
  then show "take (nat n) ?fetched = take (nat n) ?rows"
    and "(int (length ?fetched) = wrap_int (n + 1)) = (nat n < length ?rows)"
    and "(int (length ?fetched) = n + 1) = (nat n < length ?rows)"
    by blast+
qed

lemma sorted_matching_rows:
  "sorted (map file_row.Path (matching_rows directoryMarker db folderPath paging opts))"
  by (simp add: matching_rows_def)

lemma strictly_sorted_matching_rows:
  assumes "distinct (map file_row.Path (file_tbl db))"
  shows "sorted_wrt (\<lambda>r s. file_row.Path r < file_row.Path s)
    (matching_rows directoryMarker db folderPath paging opts)"
proof -
  let ?rows = "matching_rows directoryMarker db folderPath paging opts"
  from assms have "distinct (file_tbl db)" and "inj_on file_row.Path (set (file_tbl db))"
    by (simp_all add: distinct_map)
  then have "distinct ?rows" and "inj_on file_row.Path (set ?rows)"
    by (auto simp add: matching_rows_def inj_on_def)
  then have "distinct (map file_row.Path ?rows)"
    by (simp add: distinct_map)
  with sorted_matching_rows [of directoryMarker db folderPath paging opts]
  have "sorted_wrt (<) (map file_row.Path ?rows)"
    by (simp add: strict_sorted_iff)
  then show ?thesis
    by (simp add: sorted_wrt_map)
qed

lemma filter_above_last_taken:
  fixes f :: "'a \<Rightarrow> 'b::linorder"
  assumes "sorted_wrt (\<lambda>x y. f x < f y) xs" and "take k xs \<noteq> []"
  shows "filter (\<lambda>x. f (last (take k xs)) < f x) xs = drop k xs"
proof -
  let ?l = "last (take k xs)"
  from assms(1) have s: "sorted_wrt (\<lambda>x y. f x < f y) (take k xs @ drop k xs)"
    by simp
  from assms(2) have l: "?l \<in> set (take k xs)" by simp
  from s l have above: "\<forall>y \<in> set (drop k xs). f ?l < f y"
    unfolding sorted_wrt_append by blast
  from assms(2) have t: "take k xs = butlast (take k xs) @ [?l]"
    by simp
  from s have "sorted_wrt (\<lambda>x y. f x < f y) (take k xs)"
    unfolding sorted_wrt_append by blast
  with t have "sorted_wrt (\<lambda>x y. f x < f y) (butlast (take k xs) @ [?l])"
    by simp
  then have "\<forall>x \<in> set (butlast (take k xs)). f x < f ?l"
    unfolding sorted_wrt_append by simp
  with t have below: "\<forall>x \<in> set (take k xs). \<not> f ?l < f x"
    by (metis Un_iff insert_iff empty_iff list.set(1) list.set(2) not_less_iff_gr_or_eq set_append)
  from below have a: "filter (\<lambda>x. f ?l < f x) (take k xs) = []"
    by (simp add: filter_empty_conv)
  from above have b: "filter (\<lambda>x. f ?l < f x) (drop k xs) = drop k xs"
    by (simp add: filter_id_conv)
  have "filter (\<lambda>x. f ?l < f x) xs =
      filter (\<lambda>x. f ?l < f x) (take k xs) @ filter (\<lambda>x. f ?l < f x) (drop k xs)"
    by (metis append_take_drop_id filter_append)
  with a b show ?thesis by simp
qed

lemma file_matches_cursor:
  "file_matches (ListFiles_where directoryMarker folderPath \<lparr>After = a, First = n\<rparr> opts) r =
     (file_matches
        ([ListFiles_scope (Recursive opts) folderPath,
          LowerPathNotLike (''%'' @ Delimiter @ directoryMarker)]
         @ map (\<lambda>prefix. LowerPathLike (ToLower prefix @ ''%''))
             (allowedPrefixes (PathFilters opts))) r \<and>
      (a = [] \<or> a < file_row.Path r))"
  by (auto simp add: file_matches_def ListFiles_where_def)

lemma matching_rows_resume:
  assumes d: "distinct (map file_row.Path (file_tbl db))"
    and t: "take k (matching_rows directoryMarker db folderPath \<lparr>After = a, First = n\<rparr> opts) \<noteq> []"
    and l: "l = file_row.Path
      (last (take k (matching_rows directoryMarker db folderPath \<lparr>After = a, First = n\<rparr> opts)))"
    and ne: "l \<noteq> []"
  shows "matching_rows directoryMarker db folderPath \<lparr>After = l, First = n\<rparr> opts =
    drop k (matching_rows directoryMarker db folderPath \<lparr>After = a, First = n\<rparr> opts)"
proof -
  let ?rows = "matching_rows directoryMarker db folderPath \<lparr>After = a, First = n\<rparr> opts"
  let ?Wa = "ListFiles_where directoryMarker folderPath \<lparr>After = a, First = n\<rparr> opts"
  let ?Wl = "ListFiles_where directoryMarker folderPath \<lparr>After = l, First = n\<rparr> opts"
  from t have "last (take k ?rows) \<in> set (take k ?rows)" by simp
  then have "last (take k ?rows) \<in> set ?rows" by (rule in_set_takeD)
  then have "file_matches ?Wa (last (take k ?rows))"
    by (simp add: matching_rows_def)
  then have al: "a = [] \<or> a < l"
    unfolding l by (simp add: file_matches_cursor)
  have m: "file_matches ?Wl = (\<lambda>r. file_matches ?Wa r \<and> l < file_row.Path r)"
    using al ne by (intro ext) (auto simp add: file_matches_cursor)
  have "matching_rows directoryMarker db folderPath \<lparr>After = l, First = n\<rparr> opts =
      sort_key file_row.Path (filter (\<lambda>r. l < file_row.Path r) (filter (file_matches ?Wa) (file_tbl db)))"
    by (simp add: matching_rows_def m)
  also have "\<dots> = filter (\<lambda>r. l < file_row.Path r) ?rows"
    by (simp add: matching_rows_def filter_sort)
  also have "\<dots> = drop k ?rows"
    unfolding l using strictly_sorted_matching_rows [OF d] t
    by (rule filter_above_last_taken)
  finally show ?thesis .
qed

lemma ListFiles_page:
  "\<exists>resp. ListFiles directoryMarker db [] folderPath (Some \<lparr>After = a, First = n\<rparr>) (Some opts)
       = Inr resp \<and>
     map FullPath (Files resp) = map file_row.Path
       (take (nat n) (fetched_rows directoryMarker db folderPath \<lparr>After = a, First = n\<rparr> opts)) \<and>
     HasMore resp =
       (int (length (fetched_rows directoryMarker db folderPath \<lparr>After = a, First = n\<rparr> opts))
        = wrap_int (n + 1)) \<and>
     LastPath resp =
       (if take (nat n) (fetched_rows directoryMarker db folderPath \<lparr>After = a, First = n\<rparr> opts) = []
        then []
        else file_row.Path (last (take (nat n)
          (fetched_rows directoryMarker db folderPath \<lparr>After = a, First = n\<rparr> opts))))"
proof -
  let ?fetched = "fetched_rows directoryMarker db folderPath \<lparr>After = a, First = n\<rparr> opts"
  have "\<exists>resp P.
      ListFiles directoryMarker db [] folderPath (Some \<lparr>After = a, First = n\<rparr>) (Some opts) = Inr resp \<and>
      Files resp = map (toFileMetadata P) (take (nat n) ?fetched) \<and>
      HasMore resp = (int (length ?fetched) = wrap_int (n + 1)) \<and>
      LastPath resp = (if Files resp = [] then [] else FullPath (last (Files resp)))"
    using ListFiles_no_fault_result [of directoryMarker db folderPath "\<lparr>After = a, First = n\<rparr>" opts]
    by (simp only: Paging.select_convs)
  then obtain resp P where
    run: "ListFiles directoryMarker db [] folderPath (Some \<lparr>After = a, First = n\<rparr>) (Some opts) = Inr resp"
    and files: "Files resp = map (toFileMetadata P) (take (nat n) ?fetched)"
    and more: "HasMore resp = (int (length ?fetched) = wrap_int (n + 1))"
    and last: "LastPath resp = (if Files resp = [] then [] else FullPath (last (Files resp)))"
    by blast
  from files have paths: "map FullPath (Files resp) = map file_row.Path (take (nat n) ?fetched)"
    by (simp add: FullPath_toFileMetadata comp_def)
  from files last have l: "LastPath resp =
      (if take (nat n) ?fetched = [] then [] else file_row.Path (last (take (nat n) ?fetched)))"
    by (auto simp add: last_map FullPath_toFileMetadata)
  show ?thesis
    apply (rule exI [of _ resp])
    apply (intro conjI)
       apply (rule run)
      apply (rule paths)
     apply (rule more)
    apply (rule l)
    done
qed

lemma abcd_first_page:
  "fetched_rows marker_example abcd_store [] \<lparr>After = [], First = 2\<rparr>
      \<lparr>Recursive = False, PathFilters = \<lparr>allowedPrefixes = []\<rparr>\<rparr>
   = [stored_file ''a'' [] [], stored_file ''b'' [] [], stored_file ''c'' [] []]"
  by (simp add: abcd_store_def fetched_rows_eval)

lemma abcd_matching:
  "matching_rows marker_example abcd_store [] \<lparr>After = [], First = 2\<rparr>
      \<lparr>Recursive = False, PathFilters = \<lparr>allowedPrefixes = []\<rparr>\<rparr>
   = [stored_file ''a'' [] [], stored_file ''b'' [] [], stored_file ''c'' [] [],
      stored_file ''d'' [] []]"
  by (simp add: abcd_store_def fetched_rows_eval)

text \<open>
  C2, as amended. For every store (of fewer than \<open>2^63\<close> rows) and every page size \<open>n\<close>
  from 1 up (a Go \<open>int\<close>), where the store fails nothing, \<open>ListFiles\<close> answers the
  first \<open>n\<close> of the matching rows in ascending order of path, so \<open>n\<close> files at most;
  \<open>hasMore\<close> is true exactly when the fetch under the limit \<open>n + 1\<close> gave \<open>n + 1\<close>
  rows, which is exactly when a further matching row exists; \<open>lastPath\<close> is the path of
  the last file answered, and empty for an empty page. When \<open>lastPath\<close> is not empty
  (and the paths of the table are unique, as the data model has them), the call with
  \<open>after = lastPath\<close> answers the next \<open>n\<close> of the matching rows: no gap and no
  duplicate.
\<close>

theorem ListFiles_pagination:
  assumes "1 \<le> n" and "n < 2 ^ 63" and "int (length (file_tbl db)) < 2 ^ 63"
  shows "\<exists>resp.
     ListFiles directoryMarker db [] folderPath (Some \<lparr>After = a, First = n\<rparr>) (Some opts) = Inr resp \<and>
     map FullPath (Files resp) = map file_row.Path
       (take (nat n) (matching_rows directoryMarker db folderPath \<lparr>After = a, First = n\<rparr> opts)) \<and>
     length (Files resp) \<le> nat n \<and>
     sorted (map FullPath (Files resp)) \<and>
     HasMore resp =
       (int (length (fetched_rows directoryMarker db folderPath \<lparr>After = a, First = n\<rparr> opts)) = n + 1) \<and>
     HasMore resp =
       (nat n < length (matching_rows directoryMarker db folderPath \<lparr>After = a, First = n\<rparr> opts)) \<and>
     LastPath resp = (if Files resp = [] then [] else FullPath (last (Files resp))) \<and>
     (distinct (map file_row.Path (file_tbl db)) \<and> LastPath resp \<noteq> [] \<longrightarrow>
        (\<exists>next. ListFiles directoryMarker db [] folderPath
             (Some \<lparr>After = LastPath resp, First = n\<rparr>) (Some opts) = Inr next \<and>
           map FullPath (Files next) = map file_row.Path
             (take (nat n) (drop (nat n)
                (matching_rows directoryMarker db folderPath \<lparr>After = a, First = n\<rparr> opts))) \<and>
           HasMore next =
             (nat n + nat n <
                length (matching_rows directoryMarker db folderPath \<lparr>After = a, First = n\<rparr> opts))))"
proof -
  let ?rows = "matching_rows directoryMarker db folderPath \<lparr>After = a, First = n\<rparr> opts"
  let ?fetched = "fetched_rows directoryMarker db folderPath \<lparr>After = a, First = n\<rparr> opts"
  have "\<exists>resp P.
      ListFiles directoryMarker db [] folderPath (Some \<lparr>After = a, First = n\<rparr>) (Some opts) = Inr resp \<and>
      Files resp = map (toFileMetadata P) (take (nat n) ?fetched) \<and>
      HasMore resp = (int (length ?fetched) = wrap_int (n + 1)) \<and>
      LastPath resp = (if Files resp = [] then [] else FullPath (last (Files resp)))"
    using ListFiles_no_fault_result [of directoryMarker db folderPath "\<lparr>After = a, First = n\<rparr>" opts]
    by (simp only: Paging.select_convs)
  then obtain resp P where
    run: "ListFiles directoryMarker db [] folderPath (Some \<lparr>After = a, First = n\<rparr>) (Some opts) = Inr resp"
    and files0: "Files resp = map (toFileMetadata P) (take (nat n) ?fetched)"
    and more0: "HasMore resp = (int (length ?fetched) = wrap_int (n + 1))"
    and last: "LastPath resp = (if Files resp = [] then [] else FullPath (last (Files resp)))"
    by blast
  note page = fetched_rows_page [OF assms(1-3), of directoryMarker folderPath a opts]
  from files0 have files: "Files resp = map (toFileMetadata P) (take (nat n) ?rows)"
    by (simp add: page(1))
  then have paths: "map FullPath (Files resp) = map file_row.Path (take (nat n) ?rows)"
    by (simp add: FullPath_toFileMetadata comp_def)
  from files have len: "length (Files resp) \<le> nat n" by simp
  have "sorted (take (nat n) (map file_row.Path ?rows))"
    using sorted_matching_rows by (rule sorted_wrt_take)
  then have sd: "sorted (map FullPath (Files resp))"
    unfolding paths by (simp add: take_map)
  from more0 have more1: "HasMore resp = (int (length ?fetched) = n + 1)"
    by (simp add: page(2) page(3))
  from more0 have more2: "HasMore resp = (nat n < length ?rows)"
    by (simp add: page(2))
  have resume: "\<exists>next. ListFiles directoryMarker db [] folderPath
             (Some \<lparr>After = LastPath resp, First = n\<rparr>) (Some opts) = Inr next \<and>
           map FullPath (Files next) = map file_row.Path (take (nat n) (drop (nat n) ?rows)) \<and>
           HasMore next = (nat n + nat n < length ?rows)"
    if both: "distinct (map file_row.Path (file_tbl db)) \<and> LastPath resp \<noteq> []"
  proof -
    from both have unique: "distinct (map file_row.Path (file_tbl db))"
      and ne: "LastPath resp \<noteq> []"
      by simp_all
    from ne last have nonempty: "Files resp \<noteq> []" by auto
    with files have t: "take (nat n) ?rows \<noteq> []" by auto
    from nonempty last files t have l: "LastPath resp = file_row.Path (last (take (nat n) ?rows))"
      by (simp add: last_map FullPath_toFileMetadata)
    let ?next_rows = "matching_rows directoryMarker db folderPath \<lparr>After = LastPath resp, First = n\<rparr> opts"
    let ?next_fetched = "fetched_rows directoryMarker db folderPath \<lparr>After = LastPath resp, First = n\<rparr> opts"
    have rows: "?next_rows = drop (nat n) ?rows"
      using unique t l ne by (rule matching_rows_resume)
    have "\<exists>next Q.
        ListFiles directoryMarker db [] folderPath
          (Some \<lparr>After = LastPath resp, First = n\<rparr>) (Some opts) = Inr next \<and>
        Files next = map (toFileMetadata Q) (take (nat n) ?next_fetched) \<and>
        HasMore next = (int (length ?next_fetched) = wrap_int (n + 1)) \<and>
        LastPath next = (if Files next = [] then [] else FullPath (last (Files next)))"
      using ListFiles_no_fault_result
        [of directoryMarker db folderPath "\<lparr>After = LastPath resp, First = n\<rparr>" opts]
      by (simp only: Paging.select_convs)
    then obtain "next" Q where
      run2: "ListFiles directoryMarker db [] folderPath
        (Some \<lparr>After = LastPath resp, First = n\<rparr>) (Some opts) = Inr next"
      and files2: "Files next = map (toFileMetadata Q) (take (nat n) ?next_fetched)"
      and more2: "HasMore next = (int (length ?next_fetched) = wrap_int (n + 1))"
      by blast
    note page2 = fetched_rows_page [OF assms(1-3), of directoryMarker folderPath "LastPath resp" opts]
    from files2 have "map FullPath (Files next) = map file_row.Path (take (nat n) (drop (nat n) ?rows))"
      by (simp add: page2(1) rows FullPath_toFileMetadata comp_def)
    moreover from more2 have "HasMore next = (nat n + nat n < length ?rows)"
      by (auto simp add: page2(2) rows)
    ultimately show ?thesis using run2 by (intro exI [of _ "next"] conjI)
  qed
  show ?thesis
    apply (rule exI [of _ resp])
    apply (intro conjI impI)
           apply (rule run)
          apply (rule paths)
         apply (rule len)
        apply (rule sd)
       apply (rule more1)
      apply (rule more2)
     apply (rule last)
    apply (erule resume)
    done
qed

text \<open>
  The theorem at the files \<open>a\<close>, \<open>b\<close>, \<open>c\<close>, \<open>d\<close> and the page size 2: the first page is
  \<open>a\<close>, \<open>b\<close> with \<open>hasMore\<close> and \<open>lastPath = b\<close>; the page after \<open>b\<close> is \<open>c\<close>, \<open>d\<close>
  without \<open>hasMore\<close>.
\<close>

theorem ListFiles_pagination_witness:
  "\<exists>resp next.
     (1::int) \<le> 2 \<and> (2::int) < 2 ^ 63 \<and> int (length (file_tbl abcd_store)) < 2 ^ 63 \<and>
     distinct (map file_row.Path (file_tbl abcd_store)) \<and>
     ListFiles marker_example abcd_store [] [] (Some \<lparr>After = [], First = 2\<rparr>) (unfiltered False)
       = Inr resp \<and>
     map FullPath (Files resp) = [''a'', ''b''] \<and> HasMore resp \<and> LastPath resp = ''b'' \<and>
     ListFiles marker_example abcd_store [] [] (Some \<lparr>After = ''b'', First = 2\<rparr>) (unfiltered False)
       = Inr next \<and>
     map FullPath (Files next) = [''c'', ''d''] \<and> \<not> HasMore next"
proof -
  let ?opts = "\<lparr>Recursive = False, PathFilters = \<lparr>allowedPrefixes = []\<rparr>\<rparr>"
  have h1: "(1::int) \<le> 2" by simp
  have h2: "(2::int) < 2 ^ 63" by simp
  have h3: "int (length (file_tbl abcd_store)) < 2 ^ 63"
    by (simp add: abcd_store_def files_only_def)
  have h4: "distinct (map file_row.Path (file_tbl abcd_store))"
    by (simp add: abcd_store_def files_only_def stored_file_def)
  from ListFiles_pagination [OF h1 h2 h3, of marker_example "[]" "[]" ?opts]
  obtain resp where
    run: "ListFiles marker_example abcd_store [] [] (Some \<lparr>After = [], First = 2\<rparr>) (Some ?opts)
       = Inr resp"
    and paths0: "map FullPath (Files resp) = map file_row.Path (take (nat 2)
       (matching_rows marker_example abcd_store [] \<lparr>After = [], First = 2\<rparr> ?opts))"
    and more0: "HasMore resp = (nat 2 < length
       (matching_rows marker_example abcd_store [] \<lparr>After = [], First = 2\<rparr> ?opts))"
    and last0: "LastPath resp = (if Files resp = [] then [] else FullPath (last (Files resp)))"
    and resume: "distinct (map file_row.Path (file_tbl abcd_store)) \<and> LastPath resp \<noteq> [] \<longrightarrow>
        (\<exists>next. ListFiles marker_example abcd_store [] []
             (Some \<lparr>After = LastPath resp, First = 2\<rparr>) (Some ?opts) = Inr next \<and>
           map FullPath (Files next) = map file_row.Path
             (take (nat 2) (drop (nat 2)
                (matching_rows marker_example abcd_store [] \<lparr>After = [], First = 2\<rparr> ?opts))) \<and>
           HasMore next =
             (nat 2 + nat 2 <
                length (matching_rows marker_example abcd_store [] \<lparr>After = [], First = 2\<rparr> ?opts)))"
    by blast
  from paths0 have paths: "map FullPath (Files resp) = [''a'', ''b'']"
    unfolding abcd_matching by (simp add: stored_file_def)
  from more0 have more: "HasMore resp"
    unfolding abcd_matching by simp
  from paths have "Files resp \<noteq> []" by auto
  with last0 have "LastPath resp = last (map FullPath (Files resp))"
    by (simp add: last_map)
  with paths have last: "LastPath resp = ''b''" by simp
  with resume h4 obtain "next" where
    run2: "ListFiles marker_example abcd_store [] []
             (Some \<lparr>After = ''b'', First = 2\<rparr>) (Some ?opts) = Inr next"
    and paths2: "map FullPath (Files next) = map file_row.Path
             (take (nat 2) (drop (nat 2)
                (matching_rows marker_example abcd_store [] \<lparr>After = [], First = 2\<rparr> ?opts)))"
    and more2: "HasMore next =
             (nat 2 + nat 2 <
                length (matching_rows marker_example abcd_store [] \<lparr>After = [], First = 2\<rparr> ?opts))"
    by auto
  from paths2 have p2: "map FullPath (Files next) = [''c'', ''d'']"
    unfolding abcd_matching by (simp add: stored_file_def)
  from more2 have m2: "\<not> HasMore next"
    unfolding abcd_matching by simp
  show ?thesis
    apply (rule exI [of _ resp])
    apply (rule exI [of _ "next"])
    unfolding unfiltered_def
    apply (intro conjI)
              apply (rule h1)
             apply (rule h2)
            apply (rule h3)
           apply (rule h4)
          apply (rule run)
         apply (rule paths)
        apply (rule more)
       apply (rule last)
      apply (rule run2)
     apply (rule p2)
    apply (rule m2)
    done
qed

text \<open>
  The claim as it was stated fails after an empty page. Over the files \<open>a\<close>, \<open>b\<close> with
  the page size 2, the page after \<open>b\<close> is empty and its \<open>lastPath\<close> is empty; the call
  with \<open>after = lastPath\<close> then carries no cursor and answers \<open>a\<close>, \<open>b\<close> again, which
  are not files after \<open>b\<close>.
\<close>

theorem ListFiles_resume_after_empty_page_counterexample:
  "\<exists>first second third.
     ListFiles marker_example ab_store [] [] (Some \<lparr>After = [], First = 2\<rparr>) (unfiltered False)
       = Inr first \<and>
     map FullPath (Files first) = [''a'', ''b''] \<and> \<not> HasMore first \<and> LastPath first = ''b'' \<and>
     ListFiles marker_example ab_store [] [] (Some \<lparr>After = LastPath first, First = 2\<rparr>)
       (unfiltered False) = Inr second \<and>
     map FullPath (Files second) = [] \<and> \<not> HasMore second \<and> LastPath second = [] \<and>
     ListFiles marker_example ab_store [] [] (Some \<lparr>After = LastPath second, First = 2\<rparr>)
       (unfiltered False) = Inr third \<and>
     map FullPath (Files third) = [''a'', ''b'']"
proof -
  let ?opts = "\<lparr>Recursive = False, PathFilters = \<lparr>allowedPrefixes = []\<rparr>\<rparr>"
  have start: "fetched_rows marker_example ab_store [] \<lparr>After = [], First = 2\<rparr> ?opts =
      [stored_file ''a'' [] [], stored_file ''b'' [] []]"
    by (simp add: ab_store_def fetched_rows_eval)
  have after_b: "fetched_rows marker_example ab_store [] \<lparr>After = ''b'', First = 2\<rparr> ?opts = []"
    by (simp add: ab_store_def fetched_rows_eval)
  have w: "wrap_int (2 + 1) = 3"
    by (simp add: wrap_int_id)
  from ListFiles_page [of marker_example ab_store "[]" "[]" 2 ?opts]
  obtain first where
    1: "ListFiles marker_example ab_store [] [] (Some \<lparr>After = [], First = 2\<rparr>) (Some ?opts) = Inr first"
    "map FullPath (Files first) = [''a'', ''b'']" "\<not> HasMore first" "LastPath first = ''b''"
    unfolding start w by (auto simp add: stored_file_def)
  from ListFiles_page [of marker_example ab_store "[]" "''b''" 2 ?opts]
  obtain second where
    2: "ListFiles marker_example ab_store [] [] (Some \<lparr>After = ''b'', First = 2\<rparr>) (Some ?opts) = Inr second"
    "map FullPath (Files second) = []" "\<not> HasMore second" "LastPath second = []"
    unfolding after_b w by auto
  show ?thesis
    apply (rule exI [of _ first])
    apply (rule exI [of _ second])
    apply (rule exI [of _ first])
    unfolding unfiltered_def 1 2
    apply (intro conjI)
             apply (rule 1 2 refl)+
    done
qed

end
